theory Spec2Isabelle
  imports Complex_Main
begin

section \<open>Errors\<close>

text \<open>
  The Python exceptions the two modules can end in. A function that may raise returns
  \<open>error + 'a\<close>, with \<open>Inl\<close> for the exception.
\<close>

datatype error = ValueError | AssertionError | ZeroDivisionError | IndexError
  | AttributeError | RuntimeError

section \<open>Degree encoder\<close>

subsection \<open>Graphs\<close>

text \<open>
  Modelled from the spec: the graph data structure (\<open>DGLGraph\<close>) is not among the
  sources. A graph has node types, edge types, \<open>num_nodes\<close> nodes numbered from 0 and
  a list of directed edges (source, destination), as in the docstring's
  \<open>dgl.graph(([0,0,0,1,1,2,3,3], [1,2,3,0,3,0,0,1]))\<close>. The degree of a node is the
  count of edges incident to it: incoming for the in-degree, outgoing for the
  out-degree.
\<close>

record graph =
  ntypes :: "string list"
  etypes :: "string list"
  num_nodes :: nat
  edges :: "(nat \<times> nat) list"

definition in_degrees :: "graph \<Rightarrow> int list" where
  "in_degrees g =
     map (\<lambda>v. int (length (filter (\<lambda>e. snd e = v) (edges g)))) [0..<num_nodes g]"

definition out_degrees :: "graph \<Rightarrow> int list" where
  "out_degrees g =
     map (\<lambda>v. int (length (filter (\<lambda>e. fst e = v) (edges g)))) [0..<num_nodes g]"

subsection \<open>Tensor operations of the encoder\<close>

type_synonym matrix = "real list list"

text \<open>\<open>th.clamp(x, min=lo, max=hi)\<close> on one integer: \<open>min(max(x, lo), hi)\<close>.\<close>

definition clamp :: "int \<Rightarrow> int \<Rightarrow> int \<Rightarrow> int" where
  "clamp x lo hi = min (max x lo) hi"

text \<open>
  \<open>nn.Embedding(num_embeddings, embedding_dim, padding_idx)\<close>: a table of
  \<open>num_embeddings\<close> rows of width \<open>embedding_dim\<close>, filled from the random draw \<open>w\<close>
  and then with zeros in the row \<open>padding_idx\<close>. A negative size is refused when the
  table is allocated, a padding row outside the table when it is checked or zeroed.
\<close>

definition nn_Embedding ::
  "int \<Rightarrow> int \<Rightarrow> nat \<Rightarrow> (nat \<Rightarrow> nat \<Rightarrow> real) \<Rightarrow> error + matrix" where
  "nn_Embedding num_embeddings embedding_dim padding_idx w =
     (if 0 < padding_idx \<and> \<not> int padding_idx < num_embeddings then Inl AssertionError
      else if num_embeddings < 0 \<or> embedding_dim < 0 then Inl RuntimeError
      else if \<not> int padding_idx < num_embeddings then Inl IndexError
      else Inr (map (\<lambda>i. if i = padding_idx then replicate (nat embedding_dim) 0
                          else map (w i) [0..<nat embedding_dim])
                  [0..<nat num_embeddings]))"

text \<open>
  Calling an embedding on a vector of indices: one row of the table per index, and an
  IndexError for an index outside the table.
\<close>

fun embedding :: "matrix \<Rightarrow> int list \<Rightarrow> error + matrix" where
  "embedding T [] = Inr []"
| "embedding T (i # is) =
     (if 0 \<le> i \<and> i < int (length T)
      then (case embedding T is of Inl e \<Rightarrow> Inl e | Inr rows \<Rightarrow> Inr (T ! nat i # rows))
      else Inl IndexError)"

text \<open>The sum of two tensors of one shape \<open>(N, embedding_dim)\<close>, element by element.\<close>

definition tensor_add :: "matrix \<Rightarrow> matrix \<Rightarrow> matrix" where
  "tensor_add a b = map2 (map2 (+)) a b"

subsection \<open>The module\<close>

text \<open>
  The attributes of a \<open>DegreeEncoder\<close>. \<open>__init__\<close> sets either \<open>degree_encoder_1\<close>
  and \<open>degree_encoder_2\<close> or \<open>degree_encoder\<close>; an attribute that was not set is
  \<open>None\<close> here, and reading it is an AttributeError.
\<close>

record DegreeEncoder =
  direction :: string
  degree_encoder :: "matrix option"
  degree_encoder_1 :: "matrix option"
  degree_encoder_2 :: "matrix option"
  max_degree :: int

text \<open>
  \<open>DegreeEncoder.__init__\<close>. \<open>w1\<close> and \<open>w2\<close> are the random draws of the first and
  of the second table created.
\<close>

definition DegreeEncoder_init ::
  "int \<Rightarrow> int \<Rightarrow> string \<Rightarrow> (nat \<Rightarrow> nat \<Rightarrow> real) \<Rightarrow> (nat \<Rightarrow> nat \<Rightarrow> real)
     \<Rightarrow> error + DegreeEncoder" where
  "DegreeEncoder_init md embedding_dim dir w1 w2 =
     (if dir = ''both'' then
        (case nn_Embedding (md + 1) embedding_dim 0 w1 of
           Inl e \<Rightarrow> Inl e
         | Inr e1 \<Rightarrow>
            (case nn_Embedding (md + 1) embedding_dim 0 w2 of
               Inl e \<Rightarrow> Inl e
             | Inr e2 \<Rightarrow>
                Inr \<lparr>direction = dir, degree_encoder = None, degree_encoder_1 = Some e1,
                     degree_encoder_2 = Some e2, max_degree = md\<rparr>))
      else
        (case nn_Embedding (md + 1) embedding_dim 0 w1 of
           Inl e \<Rightarrow> Inl e
         | Inr e0 \<Rightarrow>
            Inr \<lparr>direction = dir, degree_encoder = Some e0, degree_encoder_1 = None,
                 degree_encoder_2 = None, max_degree = md\<rparr>))"

text \<open>
  Lines 69 to 72 of \<open>forward\<close>: the graph whose degrees are read (made homogeneous
  first when it has several node or edge types; \<open>to_homogeneous\<close> is the graph
  library's merge, a parameter here) and the two clamped degree vectors, which are the
  only arguments the embedding tables are called with.
\<close>

definition homogeneous :: "(graph \<Rightarrow> graph) \<Rightarrow> graph \<Rightarrow> graph" where
  "homogeneous to_homogeneous g =
     (if length (ntypes g) > 1 \<or> length (etypes g) > 1 then to_homogeneous g else g)"

definition in_degree :: "(graph \<Rightarrow> graph) \<Rightarrow> DegreeEncoder \<Rightarrow> graph \<Rightarrow> int list" where
  "in_degree to_homogeneous self g =
     map (\<lambda>x. clamp x 0 (max_degree self)) (in_degrees (homogeneous to_homogeneous g))"

definition out_degree :: "(graph \<Rightarrow> graph) \<Rightarrow> DegreeEncoder \<Rightarrow> graph \<Rightarrow> int list" where
  "out_degree to_homogeneous self g =
     map (\<lambda>x. clamp x 0 (max_degree self)) (out_degrees (homogeneous to_homogeneous g))"

text \<open>\<open>DegreeEncoder.forward\<close>.\<close>

definition DegreeEncoder_forward ::
  "(graph \<Rightarrow> graph) \<Rightarrow> DegreeEncoder \<Rightarrow> graph \<Rightarrow> error + matrix" where
  "DegreeEncoder_forward to_homogeneous self g =
     (if direction self = ''in'' then
        (case degree_encoder self of
           None \<Rightarrow> Inl AttributeError
         | Some T \<Rightarrow> embedding T (in_degree to_homogeneous self g))
      else if direction self = ''out'' then
        (case degree_encoder self of
           None \<Rightarrow> Inl AttributeError
         | Some T \<Rightarrow> embedding T (out_degree to_homogeneous self g))
      else if direction self = ''both'' then
        (case degree_encoder_1 self of
           None \<Rightarrow> Inl AttributeError
         | Some T1 \<Rightarrow>
            (case embedding T1 (in_degree to_homogeneous self g) of
               Inl e \<Rightarrow> Inl e
             | Inr a \<Rightarrow>
                (case degree_encoder_2 self of
                   None \<Rightarrow> Inl AttributeError
                 | Some T2 \<Rightarrow>
                    (case embedding T2 (out_degree to_homogeneous self g) of
                       Inl e \<Rightarrow> Inl e
                     | Inr b \<Rightarrow> Inr (tensor_add a b)))))
      else Inl ValueError)"

text \<open>
  An embedding table of \<open>n\<close> rows, each of width \<open>d\<close>: the shape every table keeps
  from its construction on, whatever values training gives it.
\<close>

definition table_shape :: "nat \<Rightarrow> nat \<Rightarrow> matrix \<Rightarrow> bool" where
  "table_shape n d T = (length T = n \<and> list_all (\<lambda>row. length row = d) T)"

subsection \<open>Example graphs\<close>

text \<open>The graph of the docstring, and a graph of three nodes with the one edge 0 to 1.\<close>

definition example_graph :: graph where
  "example_graph =
     \<lparr>ntypes = [''_N''], etypes = [''_E''], num_nodes = 4,
      edges = [(0, 1), (0, 2), (0, 3), (1, 0), (1, 3), (2, 0), (3, 0), (3, 1)]\<rparr>"

definition path_graph :: graph where
  "path_graph = \<lparr>ntypes = [''_N''], etypes = [''_E''], num_nodes = 3, edges = [(0, 1)]\<rparr>"

section \<open>Biased multi-head attention\<close>

subsection \<open>Tensor elements\<close>

text \<open>
  The elements of a float tensor: the real numbers and the three special values.
  \<open>forward\<close> writes \<open>-inf\<close> at the masked positions, the softmax turns a row of
  nothing but \<open>-inf\<close> into \<open>nan\<close>. The operations follow the floating-point rules
  for the special values; signed zeros are not distinguished. The sum and the product
  of two numbers are exact: neither rounding nor the overflow of a large result to an
  infinity is modelled, so a statement about masked rows takes the finiteness of the
  scores as a hypothesis instead of deriving it from the inputs.
\<close>

datatype xreal = Fin real | PInf | NInf | NaN

fun xadd :: "xreal \<Rightarrow> xreal \<Rightarrow> xreal" where
  "xadd NaN _ = NaN"
| "xadd _ NaN = NaN"
| "xadd (Fin a) (Fin b) = Fin (a + b)"
| "xadd PInf NInf = NaN"
| "xadd NInf PInf = NaN"
| "xadd PInf _ = PInf"
| "xadd _ PInf = PInf"
| "xadd NInf _ = NInf"
| "xadd _ NInf = NInf"

fun xneg :: "xreal \<Rightarrow> xreal" where
  "xneg (Fin a) = Fin (- a)"
| "xneg PInf = NInf"
| "xneg NInf = PInf"
| "xneg NaN = NaN"

definition xsub :: "xreal \<Rightarrow> xreal \<Rightarrow> xreal" where
  "xsub x y = xadd x (xneg y)"

fun xsgn :: "xreal \<Rightarrow> real" where
  "xsgn (Fin a) = sgn a"
| "xsgn PInf = 1"
| "xsgn NInf = - 1"
| "xsgn NaN = 0"

definition inf_of_sign :: "real \<Rightarrow> xreal" where
  "inf_of_sign s = (if s > 0 then PInf else if s < 0 then NInf else NaN)"

fun xmul :: "xreal \<Rightarrow> xreal \<Rightarrow> xreal" where
  "xmul NaN _ = NaN"
| "xmul _ NaN = NaN"
| "xmul (Fin a) (Fin b) = Fin (a * b)"
| "xmul x y = inf_of_sign (xsgn x * xsgn y)"

fun xdiv :: "xreal \<Rightarrow> xreal \<Rightarrow> xreal" where
  "xdiv NaN _ = NaN"
| "xdiv _ NaN = NaN"
| "xdiv (Fin a) (Fin b) = (if b = 0 then inf_of_sign a else Fin (a / b))"
| "xdiv (Fin a) _ = Fin 0"
| "xdiv x (Fin b) = (if b < 0 then xneg x else x)"
| "xdiv _ _ = NaN"

fun xexp :: "xreal \<Rightarrow> xreal" where
  "xexp (Fin a) = Fin (exp a)"
| "xexp PInf = PInf"
| "xexp NInf = Fin 0"
| "xexp NaN = NaN"

fun xmax :: "xreal \<Rightarrow> xreal \<Rightarrow> xreal" where
  "xmax NaN _ = NaN"
| "xmax _ NaN = NaN"
| "xmax PInf _ = PInf"
| "xmax _ PInf = PInf"
| "xmax NInf y = y"
| "xmax x NInf = x"
| "xmax (Fin a) (Fin b) = Fin (max a b)"

definition xsum :: "xreal list \<Rightarrow> xreal" where
  "xsum xs = foldr xadd xs (Fin 0)"

subsection \<open>Tensors\<close>

text \<open>
  A tensor is its shape and its elements in row-major order, the order in which
  \<open>reshape\<close> reads them. \<open>ravel\<close> is the position of an index, \<open>unravel\<close> the index
  at a position, \<open>tab\<close> the tensor of a shape whose elements are given by a function of
  the index. A tensor is well shaped when it has as many elements as its shape says, and
  \<open>tget\<close> reads it at an index within its shape; \<open>forward\<close> reads at no other
  index once \<open>forward_error\<close> below has accepted the shapes.
\<close>

record tensor =
  shape :: "nat list"
  data :: "xreal list"

fun ravel :: "nat list \<Rightarrow> nat list \<Rightarrow> nat" where
  "ravel (d # ds) (i # is) = i * prod_list ds + ravel ds is"
| "ravel _ _ = 0"

fun unravel :: "nat list \<Rightarrow> nat \<Rightarrow> nat list" where
  "unravel [] k = []"
| "unravel (d # ds) k = (k div prod_list ds) # unravel ds (k mod prod_list ds)"

definition valid_index :: "nat list \<Rightarrow> nat list \<Rightarrow> bool" where
  "valid_index sh idx = list_all2 (<) idx sh"

definition tget :: "tensor \<Rightarrow> nat list \<Rightarrow> xreal" where
  "tget t idx = data t ! ravel (shape t) idx"

definition tab :: "nat list \<Rightarrow> (nat list \<Rightarrow> xreal) \<Rightarrow> tensor" where
  "tab sh f = \<lparr>shape = sh, data = map (\<lambda>k. f (unravel sh k)) [0..<prod_list sh]\<rparr>"

definition well_shaped :: "tensor \<Rightarrow> bool" where
  "well_shaped t = (length (data t) = prod_list (shape t))"

text \<open>\<open>transpose(i, j)\<close>, \<open>permute(dims)\<close> and \<open>reshape(shape)\<close> as values.\<close>

definition swap_dims :: "nat \<Rightarrow> nat \<Rightarrow> 'a list \<Rightarrow> 'a list" where
  "swap_dims i j xs = xs[i := xs ! j, j := xs ! i]"

definition transpose_t :: "nat \<Rightarrow> nat \<Rightarrow> tensor \<Rightarrow> tensor" where
  "transpose_t i j t = tab (swap_dims i j (shape t)) (\<lambda>idx. tget t (swap_dims i j idx))"

definition index_of :: "nat \<Rightarrow> nat list \<Rightarrow> nat" where
  "index_of m dims = length (takeWhile (\<lambda>d. d \<noteq> m) dims)"

definition inverse_perm :: "nat list \<Rightarrow> nat list" where
  "inverse_perm dims = map (\<lambda>m. index_of m dims) [0..<length dims]"

definition permute :: "nat list \<Rightarrow> tensor \<Rightarrow> tensor" where
  "permute dims t =
     tab (map (\<lambda>d. shape t ! d) dims) (\<lambda>idx. tget t (map (\<lambda>k. idx ! k) (inverse_perm dims)))"

definition reshape :: "nat list \<Rightarrow> tensor \<Rightarrow> tensor" where
  "reshape sh t = \<lparr>shape = sh, data = data t\<rparr>"

text \<open>
  \<open>nn.Linear\<close>: the weight of shape (out, in) and the optional bias of shape (out),
  as the layer keeps them, applied to the last dimension of a tensor of three
  dimensions.
\<close>

record Linear =
  weight :: tensor
  bias :: "tensor option"

definition F_linear :: "Linear \<Rightarrow> tensor \<Rightarrow> tensor" where
  "F_linear l x =
     tab [shape x ! 0, shape x ! 1, shape (weight l) ! 0]
       (\<lambda>idx. let s = xsum (map (\<lambda>f. xmul (tget x [idx ! 0, idx ! 1, f])
                                        (tget (weight l) [idx ! 2, f]))
                           [0..<shape x ! 2])
              in case bias l of None \<Rightarrow> s | Some b \<Rightarrow> xadd s (tget b [idx ! 2]))"

text \<open>
  Division by a Python float, the batched matrix product \<open>th.bmm\<close>, the in-place
  \<open>+=\<close> and \<open>*=\<close> of two tensors of one shape, and the assignment
  \<open>t[msk.to(th.bool)] = v\<close>, where the mask indexes the leading dimensions and an
  element is true when it is not zero.
\<close>

definition div_scalar :: "tensor \<Rightarrow> real \<Rightarrow> tensor" where
  "div_scalar t s = tab (shape t) (\<lambda>idx. xdiv (tget t idx) (Fin s))"

definition bmm :: "tensor \<Rightarrow> tensor \<Rightarrow> tensor" where
  "bmm a b =
     tab [shape a ! 0, shape a ! 1, shape b ! 2]
       (\<lambda>idx. xsum (map (\<lambda>k. xmul (tget a [idx ! 0, idx ! 1, k]) (tget b [idx ! 0, k, idx ! 2]))
                     [0..<shape a ! 2]))"

definition iadd :: "tensor \<Rightarrow> tensor \<Rightarrow> tensor" where
  "iadd a b = tab (shape a) (\<lambda>idx. xadd (tget a idx) (tget b idx))"

definition imul :: "tensor \<Rightarrow> tensor \<Rightarrow> tensor" where
  "imul a b = tab (shape a) (\<lambda>idx. xmul (tget a idx) (tget b idx))"

definition to_bool :: "xreal \<Rightarrow> bool" where
  "to_bool x = (x \<noteq> Fin 0)"

definition index_put :: "tensor \<Rightarrow> tensor \<Rightarrow> xreal \<Rightarrow> tensor" where
  "index_put t msk v =
     tab (shape t)
       (\<lambda>idx. if to_bool (tget msk (take (length (shape msk)) idx)) then v else tget t idx)"

text \<open>
  \<open>F.softmax(t, dim=2)\<close> on a tensor of three dimensions: the row maximum is
  subtracted before the exponential.
\<close>

definition softmax :: "tensor \<Rightarrow> tensor" where
  "softmax t =
     tab (shape t)
       (\<lambda>idx. let row = map (\<lambda>k. tget t [idx ! 0, idx ! 1, k]) [0..<shape t ! 2];
                  m = foldr xmax row NInf
              in xdiv (xexp (xsub (tget t idx) m)) (xsum (map (\<lambda>x. xexp (xsub x m)) row)))"

text \<open>
  Dropout in training mode with probability \<open>p\<close>: \<open>u\<close> is the uniform draw in [0, 1)
  of each position; a position is kept when its draw is at least \<open>p\<close> and then divided
  by \<open>1 - p\<close>, and multiplied by zero otherwise.
\<close>

definition F_dropout :: "real \<Rightarrow> (nat list \<Rightarrow> real) \<Rightarrow> tensor \<Rightarrow> tensor" where
  "F_dropout p u t =
     tab (shape t)
       (\<lambda>idx. if p \<le> u idx then xdiv (tget t idx) (Fin (1 - p)) else xmul (tget t idx) (Fin 0))"

subsection \<open>Storage and views\<close>

text \<open>
  Tensors that share memory: the store is the list of the storages allocated so far,
  each holding one tensor, and a tensor object is a view, the address of its storage with
  the way its value is read from the storage (\<open>get\<close>) and written back into it
  (\<open>put\<close>). A new tensor gets a new storage; \<open>transpose\<close> and \<open>permute\<close> return views
  of the storage of their argument; an in-place operation stores through the view.
  \<open>reshape\<close> returns a view when the strides allow it and a copy otherwise: which of
  the two is an argument, \<open>as_view\<close>. The address of a view of the store lies within
  the store.
\<close>

record view =
  base :: nat
  get :: "tensor \<Rightarrow> tensor"
  put :: "tensor \<Rightarrow> tensor \<Rightarrow> tensor"

type_synonym heap = "tensor list"

definition read :: "heap \<Rightarrow> view \<Rightarrow> tensor" where
  "read h r = get r (h ! base r)"

definition fresh :: "tensor \<Rightarrow> heap \<Rightarrow> view \<times> heap" where
  "fresh t h = (\<lparr>base = length h, get = (\<lambda>s. s), put = (\<lambda>v s. v)\<rparr>, h @ [t])"

definition store :: "view \<Rightarrow> tensor \<Rightarrow> heap \<Rightarrow> heap" where
  "store r v h = h[base r := put r v (h ! base r)]"

definition transpose_v :: "nat \<Rightarrow> nat \<Rightarrow> view \<Rightarrow> view" where
  "transpose_v i j r =
     \<lparr>base = base r, get = (\<lambda>s. transpose_t i j (get r s)),
      put = (\<lambda>v s. put r (transpose_t i j v) s)\<rparr>"

definition permute_v :: "nat list \<Rightarrow> view \<Rightarrow> view" where
  "permute_v dims r =
     \<lparr>base = base r, get = (\<lambda>s. permute dims (get r s)),
      put = (\<lambda>v s. put r (permute (inverse_perm dims) v) s)\<rparr>"

definition reshape_v :: "bool \<Rightarrow> nat list \<Rightarrow> view \<Rightarrow> heap \<Rightarrow> view \<times> heap" where
  "reshape_v as_view sh r h =
     (if as_view then
        (\<lparr>base = base r, get = (\<lambda>s. reshape sh (get r s)),
          put = (\<lambda>v s. put r (reshape (shape (read h r)) v) s)\<rparr>, h)
      else fresh (reshape sh (read h r)) h)"

definition root_view :: "nat \<Rightarrow> view" where
  "root_view a = \<lparr>base = a, get = (\<lambda>s. s), put = (\<lambda>v s. v)\<rparr>"

subsection \<open>The module\<close>

text \<open>
  \<open>head_dim ** -0.5\<close> in Python: a ZeroDivisionError for 0, a float for a positive
  integer, a complex number for a negative one.
\<close>

datatype pynum = PyFloat real | PyComplex complex

definition py_pow_neg_half :: "int \<Rightarrow> error + pynum" where
  "py_pow_neg_half x =
     (if x = 0 then Inl ZeroDivisionError
      else if 0 < x then Inr (PyFloat (real_of_int x powr (- 1 / 2)))
      else Inr (PyComplex (1 / csqrt (of_int x))))"

text \<open>
  The attributes of a \<open>BiasedMultiheadAttention\<close>; \<open>dropout\<close> is the probability of
  its \<open>nn.Dropout\<close>, \<open>training\<close> the mode of the module.
\<close>

record BiasedMultiheadAttention =
  feat_size :: int
  num_heads :: int
  head_dim :: int
  scaling :: pynum
  attn_bias_type :: string
  q_proj :: Linear
  k_proj :: Linear
  v_proj :: Linear
  out_proj :: Linear
  dropout :: real
  training :: bool

text \<open>
  \<open>nn.Linear(in_features, out_features, bias)\<close> with its own initial values, from
  the uniform draws \<open>uw\<close> and \<open>ub\<close> in [0, 1); a negative size is refused.
  \<open>nn.Dropout(p)\<close> refuses a \<open>p\<close> outside [0, 1]. \<open>xavier_uniform_\<close> draws from
  \<open>[-a, a]\<close> with \<open>a = gain * sqrt(6 / (fan_in + fan_out))\<close>.
\<close>

definition nn_Linear ::
  "int \<Rightarrow> int \<Rightarrow> bool \<Rightarrow> (nat \<Rightarrow> nat \<Rightarrow> real) \<Rightarrow> (nat \<Rightarrow> real) \<Rightarrow> error + Linear" where
  "nn_Linear in_features out_features use_bias uw ub =
     (if in_features < 0 \<or> out_features < 0 then Inl RuntimeError
      else Inr \<lparr>weight = tab [nat out_features, nat in_features]
                   (\<lambda>idx. Fin ((2 * uw (idx ! 0) (idx ! 1) - 1) / sqrt (real_of_int in_features))),
                bias = (if use_bias
                  then Some (tab [nat out_features]
                    (\<lambda>idx. Fin ((2 * ub (idx ! 0) - 1) / sqrt (real_of_int in_features))))
                  else None)\<rparr>)"

definition nn_Dropout :: "real \<Rightarrow> error + real" where
  "nn_Dropout p = (if p < 0 \<or> 1 < p then Inl ValueError else Inr p)"

definition xavier_uniform :: "tensor \<Rightarrow> real \<Rightarrow> (nat \<Rightarrow> nat \<Rightarrow> real) \<Rightarrow> tensor" where
  "xavier_uniform w gain u =
     tab (shape w)
       (\<lambda>idx. Fin ((2 * u (idx ! 0) (idx ! 1) - 1)
                  * (gain * sqrt (6 / real (shape w ! 1 + shape w ! 0)))))"

definition constant_fill :: "tensor \<Rightarrow> real \<Rightarrow> tensor" where
  "constant_fill t c = tab (shape t) (\<lambda>idx. Fin c)"

text \<open>\<open>reset_parameters\<close> and \<open>__init__\<close>; \<open>u\<close> holds the random draws.\<close>

definition reset_parameters ::
  "BiasedMultiheadAttention \<Rightarrow> (nat \<Rightarrow> nat \<Rightarrow> nat \<Rightarrow> real) \<Rightarrow> BiasedMultiheadAttention" where
  "reset_parameters self u =
     self\<lparr>q_proj := (q_proj self)
            \<lparr>weight := xavier_uniform (weight (q_proj self)) (2 powr (- 1 / 2)) (u 8)\<rparr>,
          k_proj := (k_proj self)
            \<lparr>weight := xavier_uniform (weight (k_proj self)) (2 powr (- 1 / 2)) (u 9)\<rparr>,
          v_proj := (v_proj self)
            \<lparr>weight := xavier_uniform (weight (v_proj self)) (2 powr (- 1 / 2)) (u 10)\<rparr>,
          out_proj :=
            \<lparr>weight = xavier_uniform (weight (out_proj self)) 1 (u 11),
             bias = map_option (\<lambda>b. constant_fill b 0) (bias (out_proj self))\<rparr>\<rparr>"

definition BiasedMultiheadAttention_init ::
  "int \<Rightarrow> int \<Rightarrow> bool \<Rightarrow> string \<Rightarrow> real \<Rightarrow> (nat \<Rightarrow> nat \<Rightarrow> nat \<Rightarrow> real)
     \<Rightarrow> error + BiasedMultiheadAttention" where
  "BiasedMultiheadAttention_init fs nh use_bias bias_type attn_drop u =
     (if nh = 0 then Inl ZeroDivisionError
      else if (fs div nh) * nh \<noteq> fs then Inl AssertionError
      else
        (case py_pow_neg_half (fs div nh) of
           Inl e \<Rightarrow> Inl e
         | Inr sc \<Rightarrow>
        (case nn_Linear fs fs use_bias (u 0) (u 1 0) of
           Inl e \<Rightarrow> Inl e
         | Inr q \<Rightarrow>
        (case nn_Linear fs fs use_bias (u 2) (u 3 0) of
           Inl e \<Rightarrow> Inl e
         | Inr k \<Rightarrow>
        (case nn_Linear fs fs use_bias (u 4) (u 5 0) of
           Inl e \<Rightarrow> Inl e
         | Inr v \<Rightarrow>
        (case nn_Linear fs fs use_bias (u 6) (u 7 0) of
           Inl e \<Rightarrow> Inl e
         | Inr out \<Rightarrow>
        (case nn_Dropout attn_drop of
           Inl e \<Rightarrow> Inl e
         | Inr p \<Rightarrow>
            Inr (reset_parameters
              \<lparr>feat_size = fs, num_heads = nh, head_dim = fs div nh, scaling = sc,
               attn_bias_type = bias_type, q_proj = q, k_proj = k, v_proj = v,
               out_proj = out, dropout = p, training = True\<rparr> u))))))))"

subsection \<open>forward\<close>

text \<open>
  Lines 184 to 190: the three projections, each a new tensor, split into heads.
  \<open>views k\<close> says whether the \<open>k\<close>-th \<open>reshape\<close> of \<open>forward\<close> returns a view;
  \<open>sc\<close> is the float \<open>self.scaling\<close>.
\<close>

definition project_heads ::
  "BiasedMultiheadAttention \<Rightarrow> (nat \<Rightarrow> bool) \<Rightarrow> real \<Rightarrow> view \<Rightarrow> heap
     \<Rightarrow> (view \<times> view \<times> view) \<times> heap" where
  "project_heads self views sc ndata h0 =
     (let (q, h1) = fresh (F_linear (q_proj self) (read h0 ndata)) h0;
          (k, h2) = fresh (F_linear (k_proj self) (read h1 ndata)) h1;
          (v, h3) = fresh (F_linear (v_proj self) (read h2 ndata)) h2;
          bsz = shape (read h3 ndata) ! 0;
          N = shape (read h3 ndata) ! 1;
          H = nat (num_heads self);
          hd = nat (head_dim self);
          (q_r, h4) = reshape_v (views 0) [N, bsz * H, hd] (transpose_v 0 1 q) h3;
          (q_h, h5) = fresh (div_scalar (read h4 (transpose_v 0 1 q_r)) sc) h4;
          (k_r, h6) = reshape_v (views 1) [N, bsz * H, hd] (transpose_v 0 1 k) h5;
          (v_r, h7) = reshape_v (views 2) [N, bsz * H, hd] (transpose_v 0 1 v) h6
      in ((q_h, permute_v [1, 2, 0] k_r, transpose_v 0 1 v_r), h7))"

text \<open>Lines 192 to 197: the scores, a view of the product or of a copy of it.\<close>

definition attn_scores ::
  "BiasedMultiheadAttention \<Rightarrow> (nat \<Rightarrow> bool) \<Rightarrow> nat \<Rightarrow> nat \<Rightarrow> view \<Rightarrow> view \<Rightarrow> heap
     \<Rightarrow> view \<times> heap" where
  "attn_scores self views bsz N q_h k_h h0 =
     (let (x, h1) = fresh (bmm (read h0 q_h) (read h0 k_h)) h0;
          (r, h2) = reshape_v (views 3) [N, N, bsz, nat (num_heads self)] (transpose_v 0 2 x) h1
      in (transpose_v 0 2 r, h2))"

text \<open>Lines 199 to 206: the bias and the mask, both written in place.\<close>

definition apply_bias ::
  "BiasedMultiheadAttention \<Rightarrow> view \<Rightarrow> view option \<Rightarrow> heap \<Rightarrow> heap" where
  "apply_bias self attn_weights attn_bias h =
     (case attn_bias of
        None \<Rightarrow> h
      | Some b \<Rightarrow>
         (if attn_bias_type self = ''add''
          then store attn_weights (iadd (read h attn_weights) (read h b)) h
          else store attn_weights (imul (read h attn_weights) (read h b)) h))"

definition apply_mask :: "view \<Rightarrow> view option \<Rightarrow> heap \<Rightarrow> heap" where
  "apply_mask attn_weights attn_mask h =
     (case attn_mask of
        None \<Rightarrow> h
      | Some m \<Rightarrow> store attn_weights (index_put (read h attn_weights) (read h m) NInf) h)"

text \<open>Lines 208 to 213, line 215 and lines 217 to 219.\<close>

definition attn_softmax ::
  "BiasedMultiheadAttention \<Rightarrow> (nat \<Rightarrow> bool) \<Rightarrow> nat \<Rightarrow> nat \<Rightarrow> view \<Rightarrow> heap \<Rightarrow> view \<times> heap" where
  "attn_softmax self views bsz N attn_weights h0 =
     (let (r, h1) = reshape_v (views 4) [N, N, bsz * nat (num_heads self)]
                      (transpose_v 0 2 attn_weights) h0
      in fresh (softmax (read h1 (transpose_v 0 2 r))) h1)"

definition attn_dropout ::
  "BiasedMultiheadAttention \<Rightarrow> (nat list \<Rightarrow> real) \<Rightarrow> view \<Rightarrow> heap \<Rightarrow> view \<times> heap" where
  "attn_dropout self u attn_weights h =
     (if training self then fresh (F_dropout (dropout self) u (read h attn_weights)) h
      else (attn_weights, h))"

definition attn_output ::
  "BiasedMultiheadAttention \<Rightarrow> (nat \<Rightarrow> bool) \<Rightarrow> nat \<Rightarrow> nat \<Rightarrow> view \<Rightarrow> view \<Rightarrow> heap
     \<Rightarrow> view \<times> heap" where
  "attn_output self views bsz N attn_weights v_h h0 =
     (let (a, h1) = fresh (bmm (read h0 attn_weights) (read h0 v_h)) h0;
          (r, h2) = reshape_v (views 5) [N, bsz, nat (feat_size self)] (transpose_v 0 1 a) h1
      in fresh (F_linear (out_proj self) (read h2 (transpose_v 0 1 r))) h2)"

text \<open>Lines 184 to 213 together: the attention probabilities and the value heads.\<close>

definition attention_weights ::
  "BiasedMultiheadAttention \<Rightarrow> (nat \<Rightarrow> bool) \<Rightarrow> real \<Rightarrow> view \<Rightarrow> view option \<Rightarrow> view option
     \<Rightarrow> heap \<Rightarrow> (view \<times> view) \<times> heap" where
  "attention_weights self views sc ndata attn_bias attn_mask h0 =
     (let ((q_h, k_h, v_h), h1) = project_heads self views sc ndata h0;
          bsz = shape (read h0 ndata) ! 0;
          N = shape (read h0 ndata) ! 1;
          (attn_weights, h2) = attn_scores self views bsz N q_h k_h h1;
          h3 = apply_bias self attn_weights attn_bias h2;
          h4 = apply_mask attn_weights attn_mask h3;
          (p, h5) = attn_softmax self views bsz N attn_weights h4
      in ((p, v_h), h5))"

text \<open>
  The exceptions of \<open>forward\<close>, in the order of the lines that raise them: a
  projection of an input whose last dimension is not that of the weight (lines 184 to
  186), the transpose of a vector (line 184), the unpacking of a shape that has not three
  entries (line 187), a reshape into heads that does not fit (lines 188 to 190), a bias
  that has not the shape of the scores (line 201; a smaller bias that would be broadcast
  is outside this model), a mask whose shape is not a prefix of theirs (line 206), and
  the reshape and the projection of line 219. A dimension given as \<open>-1\<close>, which
  \<open>reshape\<close> would infer, is refused here like every negative one.
\<close>

definition forward_error ::
  "BiasedMultiheadAttention \<Rightarrow> tensor \<Rightarrow> tensor option \<Rightarrow> tensor option \<Rightarrow> error option" where
  "forward_error self x b m =
     (let sh = shape x; bsz = sh ! 0; N = sh ! 1; H = num_heads self; hd = head_dim self;
          in_features = (\<lambda>l. shape (weight l) ! 1);
          out_features = (\<lambda>l. shape (weight l) ! 0);
          heads = int N * (int bsz * H) * hd in
      if sh = [] \<or> last sh \<noteq> in_features (q_proj self) then Some RuntimeError
      else if length sh = 1 then Some IndexError
      else if last sh \<noteq> in_features (k_proj self) \<or> last sh \<noteq> in_features (v_proj self)
        then Some RuntimeError
      else if length sh \<noteq> 3 then Some ValueError
      else if H < 0 \<or> hd < 0
          \<or> int (N * bsz * out_features (q_proj self)) \<noteq> heads
          \<or> int (N * bsz * out_features (k_proj self)) \<noteq> heads
          \<or> int (N * bsz * out_features (v_proj self)) \<noteq> heads
        then Some RuntimeError
      else if (case b of None \<Rightarrow> False | Some bt \<Rightarrow> shape bt \<noteq> [bsz, N, N, nat H])
        then Some RuntimeError
      else if (case m of None \<Rightarrow> False
               | Some mt \<Rightarrow> take (length (shape mt)) [bsz, N, N, nat H] \<noteq> shape mt)
        then Some IndexError
      else if feat_size self < 0 \<or> heads \<noteq> int (N * bsz) * feat_size self
          \<or> feat_size self \<noteq> int (in_features (out_proj self))
        then Some RuntimeError
      else None)"

text \<open>
  \<open>BiasedMultiheadAttention.forward\<close>, from the store \<open>h0\<close> to the output and the
  store after the call. \<open>u\<close> is the draw of the dropout. A complex \<open>scaling\<close> comes
  with a negative \<open>head_dim\<close> only, which the reshape refuses; complex tensors are not
  modelled. The conversion \<open>attn_mask.to(th.bool)\<close> is read-only and is part of
  \<open>index_put\<close>.
\<close>

definition BiasedMultiheadAttention_forward ::
  "BiasedMultiheadAttention \<Rightarrow> (nat \<Rightarrow> bool) \<Rightarrow> (nat list \<Rightarrow> real) \<Rightarrow> view \<Rightarrow> view option
     \<Rightarrow> view option \<Rightarrow> heap \<Rightarrow> error + view \<times> heap" where
  "BiasedMultiheadAttention_forward self views u ndata attn_bias attn_mask h0 =
     (case forward_error self (read h0 ndata) (map_option (read h0) attn_bias)
             (map_option (read h0) attn_mask) of
        Some e \<Rightarrow> Inl e
      | None \<Rightarrow>
         (case scaling self of
            PyComplex c \<Rightarrow> Inl RuntimeError
          | PyFloat sc \<Rightarrow>
             (let bsz = shape (read h0 ndata) ! 0;
                  N = shape (read h0 ndata) ! 1;
                  ((p, v_h), h1) = attention_weights self views sc ndata attn_bias attn_mask h0;
                  (p', h2) = attn_dropout self u p h1
              in Inr (attn_output self views bsz N p' v_h h2))))"

subsection \<open>The values forward computes\<close>

text \<open>
  The value of each tensor of \<open>forward\<close> as a function of the values of the inputs,
  line by line; the proofs show that the views of the model above hold these values.
\<close>

definition q_value :: "BiasedMultiheadAttention \<Rightarrow> real \<Rightarrow> tensor \<Rightarrow> tensor" where
  "q_value self sc x =
     div_scalar (transpose_t 0 1
       (reshape [shape x ! 1, shape x ! 0 * nat (num_heads self), nat (head_dim self)]
          (transpose_t 0 1 (F_linear (q_proj self) x)))) sc"

definition k_value :: "BiasedMultiheadAttention \<Rightarrow> tensor \<Rightarrow> tensor" where
  "k_value self x =
     permute [1, 2, 0]
       (reshape [shape x ! 1, shape x ! 0 * nat (num_heads self), nat (head_dim self)]
          (transpose_t 0 1 (F_linear (k_proj self) x)))"

definition v_value :: "BiasedMultiheadAttention \<Rightarrow> tensor \<Rightarrow> tensor" where
  "v_value self x =
     transpose_t 0 1
       (reshape [shape x ! 1, shape x ! 0 * nat (num_heads self), nat (head_dim self)]
          (transpose_t 0 1 (F_linear (v_proj self) x)))"

definition scores_value :: "BiasedMultiheadAttention \<Rightarrow> real \<Rightarrow> tensor \<Rightarrow> tensor" where
  "scores_value self sc x =
     transpose_t 0 2
       (reshape [shape x ! 1, shape x ! 1, shape x ! 0, nat (num_heads self)]
          (transpose_t 0 2 (bmm (q_value self sc x) (k_value self x))))"

definition biased_value :: "BiasedMultiheadAttention \<Rightarrow> tensor \<Rightarrow> tensor option \<Rightarrow> tensor" where
  "biased_value self w b =
     (case b of
        None \<Rightarrow> w
      | Some bt \<Rightarrow> if attn_bias_type self = ''add'' then iadd w bt else imul w bt)"

definition masked_value :: "tensor \<Rightarrow> tensor option \<Rightarrow> tensor" where
  "masked_value w m = (case m of None \<Rightarrow> w | Some mt \<Rightarrow> index_put w mt NInf)"

definition logits_value ::
  "BiasedMultiheadAttention \<Rightarrow> real \<Rightarrow> tensor \<Rightarrow> tensor option \<Rightarrow> tensor option \<Rightarrow> tensor" where
  "logits_value self sc x b m =
     transpose_t 0 2
       (reshape [shape x ! 1, shape x ! 1, shape x ! 0 * nat (num_heads self)]
          (transpose_t 0 2 (masked_value (biased_value self (scores_value self sc x) b) m)))"

definition probs_value ::
  "BiasedMultiheadAttention \<Rightarrow> real \<Rightarrow> tensor \<Rightarrow> tensor option \<Rightarrow> tensor option \<Rightarrow> tensor" where
  "probs_value self sc x b m = softmax (logits_value self sc x b m)"

definition dropout_value ::
  "BiasedMultiheadAttention \<Rightarrow> (nat list \<Rightarrow> real) \<Rightarrow> tensor \<Rightarrow> tensor" where
  "dropout_value self u p = (if training self then F_dropout (dropout self) u p else p)"

definition forward_value ::
  "BiasedMultiheadAttention \<Rightarrow> real \<Rightarrow> (nat list \<Rightarrow> real) \<Rightarrow> tensor \<Rightarrow> tensor option
     \<Rightarrow> tensor option \<Rightarrow> tensor" where
  "forward_value self sc u x b m =
     F_linear (out_proj self)
       (transpose_t 0 1
          (reshape [shape x ! 1, shape x ! 0, nat (feat_size self)]
             (transpose_t 0 1
                (bmm (dropout_value self u (probs_value self sc x b m)) (v_value self x)))))"

subsection \<open>Well-formed tensors and modules\<close>

text \<open>
  A view obeys the lens law for a shape when a well-formed tensor of this shape, stored
  through the view, is read back through it. A tensor is finite when it holds numbers
  only. A module is in order when its sizes fit and its parameters are finite tensors of
  the shapes the constructor gives them.
\<close>

definition lens_law :: "view \<Rightarrow> nat list \<Rightarrow> bool" where
  "lens_law r sh = (\<forall>v s. well_shaped v \<and> shape v = sh \<longrightarrow> get r (put r v s) = v)"

fun is_fin :: "xreal \<Rightarrow> bool" where
  "is_fin (Fin a) = True"
| "is_fin _ = False"

definition fin_t :: "tensor \<Rightarrow> bool" where
  "fin_t t = list_all is_fin (data t)"

definition linear_ok :: "nat \<Rightarrow> Linear \<Rightarrow> bool" where
  "linear_ok F l =
     (well_shaped (weight l) \<and> shape (weight l) = [F, F] \<and> fin_t (weight l)
      \<and> (case bias l of None \<Rightarrow> True | Some b \<Rightarrow> well_shaped b \<and> shape b = [F] \<and> fin_t b))"

definition module_ok :: "BiasedMultiheadAttention \<Rightarrow> bool" where
  "module_ok self =
     (0 < num_heads self \<and> 0 < head_dim self \<and> head_dim self * num_heads self = feat_size self
      \<and> (case scaling self of PyFloat sc \<Rightarrow> 0 < sc | PyComplex c \<Rightarrow> False)
      \<and> linear_ok (nat (feat_size self)) (q_proj self)
      \<and> linear_ok (nat (feat_size self)) (k_proj self)
      \<and> linear_ok (nat (feat_size self)) (v_proj self)
      \<and> linear_ok (nat (feat_size self)) (out_proj self))"

subsection \<open>Example inputs\<close>

text \<open>
  Constant tensors, the identity matrix, and a module of \<open>H\<close> heads of width \<open>d\<close>
  whose four projections are the identity, in inference mode.
\<close>

definition ones :: "nat list \<Rightarrow> tensor" where
  "ones sh = tab sh (\<lambda>idx. Fin 1)"

definition zeros :: "nat list \<Rightarrow> tensor" where
  "zeros sh = tab sh (\<lambda>idx. Fin 0)"

definition eye :: "nat \<Rightarrow> tensor" where
  "eye n = tab [n, n] (\<lambda>idx. if idx ! 0 = idx ! 1 then Fin 1 else Fin 0)"

definition example_module :: "nat \<Rightarrow> nat \<Rightarrow> real \<Rightarrow> BiasedMultiheadAttention" where
  "example_module H d sc =
     \<lparr>feat_size = int (H * d), num_heads = int H, head_dim = int d, scaling = PyFloat sc,
      attn_bias_type = ''add'',
      q_proj = \<lparr>weight = eye (H * d), bias = None\<rparr>,
      k_proj = \<lparr>weight = eye (H * d), bias = None\<rparr>,
      v_proj = \<lparr>weight = eye (H * d), bias = None\<rparr>,
      out_proj = \<lparr>weight = eye (H * d), bias = Some (zeros [H * d])\<rparr>,
      dropout = 0, training = False\<rparr>"

text \<open>One graph of one node with the features (1, 0, 0, 0).\<close>

definition unit_input :: tensor where
  "unit_input = \<lparr>shape = [1, 1, 4], data = [Fin 1, Fin 0, Fin 0, Fin 0]\<rparr>"

section \<open>Degree encoder: proofs\<close>

lemma clamp_range: "0 \<le> hi \<Longrightarrow> 0 \<le> clamp x 0 hi \<and> clamp x 0 hi \<le> hi"
  by (simp add: clamp_def)

lemma embedding_not_ValueError: "embedding T xs \<noteq> Inl ValueError"
  by (induction xs) (auto split: sum.splits)

lemma embedding_in_range:
  "list_all (\<lambda>i. 0 \<le> i \<and> i < int (length T)) xs
     \<Longrightarrow> embedding T xs = Inr (map (\<lambda>i. T ! nat i) xs)"
  by (induction xs) auto

lemma embedding_only_IndexError: "embedding T xs = Inl e \<Longrightarrow> e = IndexError"
  by (induction xs arbitrary: e) (auto split: if_splits sum.splits)

lemma nn_Embedding_pad0:
  "nn_Embedding n d 0 w = Inr T \<Longrightarrow>
     0 < n \<and> 0 \<le> d \<and> table_shape (nat n) (nat d) T \<and> T ! 0 = replicate (nat d) 0"
  by (auto simp: nn_Embedding_def table_shape_def list_all_iff nth_map_upt upt_rec [of 0]
      split: if_splits)

lemma nn_Embedding_ok:
  "0 < n \<Longrightarrow> 0 \<le> d \<Longrightarrow> \<exists>T. nn_Embedding n d 0 w = Inr T"
  by (simp add: nn_Embedding_def)

lemma clamped_in_table:
  "0 \<le> md \<Longrightarrow> length T = nat (md + 1)
     \<Longrightarrow> list_all (\<lambda>i. 0 \<le> i \<and> i < int (length T)) (map (\<lambda>x. clamp x 0 md) xs)"
  by (auto simp: list_all_iff clamp_def)

lemma embedding_clamped:
  assumes "0 \<le> md" and "length T = nat (md + 1)"
  shows "embedding T (map (\<lambda>x. clamp x 0 md) xs) = Inr (map (\<lambda>x. T ! nat (clamp x 0 md)) xs)"
  using embedding_in_range [OF clamped_in_table [OF assms, of xs]] by (simp add: comp_def)

lemma forward_in:
  "length T = nat (md + 1) \<Longrightarrow> 0 \<le> md \<Longrightarrow>
   DegreeEncoder_forward hom \<lparr>direction = ''in'', degree_encoder = Some T,
       degree_encoder_1 = x, degree_encoder_2 = y, max_degree = md\<rparr> g
   = Inr (map (\<lambda>x. T ! nat (clamp x 0 md)) (in_degrees (homogeneous hom g)))"
  by (simp add: DegreeEncoder_forward_def in_degree_def embedding_clamped)

lemma forward_out:
  "length T = nat (md + 1) \<Longrightarrow> 0 \<le> md \<Longrightarrow>
   DegreeEncoder_forward hom \<lparr>direction = ''out'', degree_encoder = Some T,
       degree_encoder_1 = x, degree_encoder_2 = y, max_degree = md\<rparr> g
   = Inr (map (\<lambda>x. T ! nat (clamp x 0 md)) (out_degrees (homogeneous hom g)))"
  by (simp add: DegreeEncoder_forward_def out_degree_def embedding_clamped)

lemma forward_both:
  "length T1 = nat (md + 1) \<Longrightarrow> length T2 = nat (md + 1) \<Longrightarrow> 0 \<le> md \<Longrightarrow>
   DegreeEncoder_forward hom \<lparr>direction = ''both'', degree_encoder = z,
       degree_encoder_1 = Some T1, degree_encoder_2 = Some T2, max_degree = md\<rparr> g
   = Inr (tensor_add
       (map (\<lambda>x. T1 ! nat (clamp x 0 md)) (in_degrees (homogeneous hom g)))
       (map (\<lambda>x. T2 ! nat (clamp x 0 md)) (out_degrees (homogeneous hom g))))"
  by (simp add: DegreeEncoder_forward_def in_degree_def out_degree_def embedding_clamped)



lemma init_cases:
  assumes "DegreeEncoder_init md ed dir w1 w2 = Inr enc"
  shows "0 \<le> md \<and> 0 \<le> ed \<and> max_degree enc = md \<and> direction enc = dir
    \<and> (if dir = ''both''
        then \<exists>T1 T2. enc = \<lparr>direction = dir, degree_encoder = None, degree_encoder_1 = Some T1,
                 degree_encoder_2 = Some T2, max_degree = md\<rparr>
               \<and> table_shape (nat (md + 1)) (nat ed) T1 \<and> T1 ! 0 = replicate (nat ed) 0
               \<and> table_shape (nat (md + 1)) (nat ed) T2 \<and> T2 ! 0 = replicate (nat ed) 0
        else \<exists>T. enc = \<lparr>direction = dir, degree_encoder = Some T, degree_encoder_1 = None,
                 degree_encoder_2 = None, max_degree = md\<rparr>
               \<and> table_shape (nat (md + 1)) (nat ed) T \<and> T ! 0 = replicate (nat ed) 0)"
  using assms
  by (auto simp: DegreeEncoder_init_def split: if_splits sum.splits dest!: nn_Embedding_pad0)

lemma degrees_length:
  "length (in_degrees g) = num_nodes g" "length (out_degrees g) = num_nodes g"
  by (simp_all add: in_degrees_def out_degrees_def)

lemma degrees_nonneg:
  "v < num_nodes g \<Longrightarrow> 0 \<le> in_degrees g ! v" "v < num_nodes g \<Longrightarrow> 0 \<le> out_degrees g ! v"
  by (simp_all add: in_degrees_def out_degrees_def)

lemma forward_only_errors:
  "DegreeEncoder_forward hom self g = Inl e \<Longrightarrow>
     e = IndexError \<or> e = AttributeError \<or> (e = ValueError \<and> direction self \<notin> {''in'', ''out'', ''both''})"
  by (auto simp: DegreeEncoder_forward_def split: if_splits option.splits sum.splits
      dest: embedding_only_IndexError)

text \<open>
  Claim C7. \<open>forward\<close> ends in the ValueError whenever the direction is none of in,
  out and both, and never ends in it for one of these three.
\<close>
theorem DegreeEncoder_forward_direction:
  "(direction self \<notin> {''in'', ''out'', ''both''}
      \<longrightarrow> DegreeEncoder_forward hom self g = Inl ValueError)
   \<and> (direction self \<in> {''in'', ''out'', ''both''}
      \<longrightarrow> DegreeEncoder_forward hom self g \<noteq> Inl ValueError)"
proof (intro conjI impI)
  assume "direction self \<notin> {''in'', ''out'', ''both''}"
  then show "DegreeEncoder_forward hom self g = Inl ValueError"
    by (simp add: DegreeEncoder_forward_def)
next
  assume "direction self \<in> {''in'', ''out'', ''both''}"
  then show "DegreeEncoder_forward hom self g \<noteq> Inl ValueError"
    using forward_only_errors [of hom self g ValueError] by auto
qed

theorem DegreeEncoder_forward_direction_witness:
  "DegreeEncoder_forward id \<lparr>direction = ''sum'', degree_encoder = Some [[0], [1]],
       degree_encoder_1 = None, degree_encoder_2 = None, max_degree = 1\<rparr> path_graph
     = Inl ValueError
   \<and> DegreeEncoder_forward id \<lparr>direction = ''out'', degree_encoder = Some [[0], [1]],
       degree_encoder_1 = None, degree_encoder_2 = None, max_degree = 1\<rparr> path_graph
     \<noteq> Inl ValueError"
  using DegreeEncoder_forward_direction [of "\<lparr>direction = ''sum'', degree_encoder = Some [[0], [1]],
       degree_encoder_1 = None, degree_encoder_2 = None, max_degree = 1\<rparr>" id path_graph]
    DegreeEncoder_forward_direction [of "\<lparr>direction = ''out'', degree_encoder = Some [[0], [1]],
       degree_encoder_1 = None, degree_encoder_2 = None, max_degree = 1\<rparr>" id path_graph]
  by simp

text \<open>
  Claim C10. With a direction outside in, out and both the constructor succeeds and
  creates the single table \<open>degree_encoder\<close>; the ValueError comes from \<open>forward\<close>.
\<close>
theorem DegreeEncoder_init_unknown_direction:
  assumes "dir \<notin> {''in'', ''out'', ''both''}" and "0 \<le> md" and "0 \<le> ed"
  shows "\<exists>T. nn_Embedding (md + 1) ed 0 w1 = Inr T
    \<and> DegreeEncoder_init md ed dir w1 w2
        = Inr \<lparr>direction = dir, degree_encoder = Some T, degree_encoder_1 = None,
               degree_encoder_2 = None, max_degree = md\<rparr>
    \<and> DegreeEncoder_forward hom \<lparr>direction = dir, degree_encoder = Some T,
          degree_encoder_1 = None, degree_encoder_2 = None, max_degree = md\<rparr> g
        = Inl ValueError"
proof -
  from assms obtain T where T: "nn_Embedding (md + 1) ed 0 w1 = Inr T"
    using nn_Embedding_ok [of "md + 1" ed w1] by auto
  with assms(1) show ?thesis
    by (auto simp: DegreeEncoder_init_def DegreeEncoder_forward_def)
qed

theorem DegreeEncoder_init_unknown_direction_witness:
  "DegreeEncoder_init 1 2 ''sum'' (\<lambda>i j. 7) (\<lambda>i j. 9)
     = Inr \<lparr>direction = ''sum'', degree_encoder = Some [[0, 0], [7, 7]],
            degree_encoder_1 = None, degree_encoder_2 = None, max_degree = 1\<rparr>
   \<and> DegreeEncoder_forward id \<lparr>direction = ''sum'', degree_encoder = Some [[0, 0], [7, 7]],
        degree_encoder_1 = None, degree_encoder_2 = None, max_degree = 1\<rparr> path_graph
     = Inl ValueError"
proof -
  have T: "nn_Embedding 2 2 0 (\<lambda>i j. 7) = Inr [[0, 0], [7, 7]]"
    by code_simp
  show ?thesis
    using DegreeEncoder_init_unknown_direction [of "''sum''" 1 2 "\<lambda>i j. 7" "\<lambda>i j. 9" id path_graph]
    by (auto simp: T)
qed


lemma forward_constructed:
  assumes "DegreeEncoder_init md ed dir w1 w2 = Inr enc"
  shows "(\<exists>out. DegreeEncoder_forward hom enc g = Inr out)
    \<or> DegreeEncoder_forward hom enc g = Inl ValueError"
proof -
  from init_cases [OF assms] have md: "0 \<le> md" by simp
  show ?thesis
  proof (cases "dir = ''both''")
    case True
    with init_cases [OF assms] obtain T1 T2 where
      "enc = \<lparr>direction = dir, degree_encoder = None, degree_encoder_1 = Some T1,
                 degree_encoder_2 = Some T2, max_degree = md\<rparr>"
      "length T1 = nat (md + 1)" "length T2 = nat (md + 1)"
      by (auto simp: table_shape_def)
    with True md show ?thesis by (simp add: forward_both)
  next
    case False
    with init_cases [OF assms] obtain T where
      T: "enc = \<lparr>direction = dir, degree_encoder = Some T, degree_encoder_1 = None,
                 degree_encoder_2 = None, max_degree = md\<rparr>"
      "length T = nat (md + 1)"
      by (auto simp: table_shape_def)
    consider (i) "dir = ''in''" | (o) "dir = ''out''" | (n) "dir \<notin> {''in'', ''out'', ''both''}"
      using False by auto
    then show ?thesis
    proof cases
      case i
      with T md show ?thesis by (simp add: forward_in)
    next
      case o
      with T md show ?thesis by (simp add: forward_out)
    next
      case n
      with T show ?thesis by (simp add: DegreeEncoder_forward_def)
    qed
  qed
qed

text \<open>
  Claim C5. Every degree passed to an embedding lookup lies between 0 and
  \<open>max_degree\<close>, a degree above \<open>max_degree\<close> is replaced by \<open>max_degree\<close>, and
  the lookup in the table of \<open>max_degree + 1\<close> rows never raises an IndexError.
\<close>
theorem DegreeEncoder_degrees_clamped:
  assumes "DegreeEncoder_init md ed dir w1 w2 = Inr enc"
  shows "list_all (\<lambda>x. 0 \<le> x \<and> x \<le> md) (in_degree hom enc g)
    \<and> list_all (\<lambda>x. 0 \<le> x \<and> x \<le> md) (out_degree hom enc g)
    \<and> in_degree hom enc g = map (\<lambda>x. if md < x then md else x) (in_degrees (homogeneous hom g))
    \<and> out_degree hom enc g = map (\<lambda>x. if md < x then md else x) (out_degrees (homogeneous hom g))
    \<and> DegreeEncoder_forward hom enc g \<noteq> Inl IndexError"
proof -
  from init_cases [OF assms] have md: "0 \<le> md" "max_degree enc = md" by simp_all
  have "list_all (\<lambda>x. 0 \<le> x \<and> x \<le> md) (in_degree hom enc g)"
    "list_all (\<lambda>x. 0 \<le> x \<and> x \<le> md) (out_degree hom enc g)"
    using md by (simp_all add: in_degree_def out_degree_def list_all_iff clamp_def)
  moreover have "in_degree hom enc g
      = map (\<lambda>x. if md < x then md else x) (in_degrees (homogeneous hom g))"
    using md by (auto simp: in_degree_def in_degrees_def clamp_def)
  moreover have "out_degree hom enc g
      = map (\<lambda>x. if md < x then md else x) (out_degrees (homogeneous hom g))"
    using md by (auto simp: out_degree_def out_degrees_def clamp_def)
  ultimately show ?thesis
    using forward_constructed [OF assms, of hom g] by auto
qed

theorem DegreeEncoder_degrees_clamped_witness:
  "DegreeEncoder_init 2 1 ''in'' (\<lambda>i j. 7) (\<lambda>i j. 9)
     = Inr \<lparr>direction = ''in'', degree_encoder = Some [[0], [7], [7]],
            degree_encoder_1 = None, degree_encoder_2 = None, max_degree = 2\<rparr>
   \<and> in_degrees example_graph = [3, 2, 1, 2]
   \<and> in_degree id \<lparr>direction = ''in'', degree_encoder = Some [[0], [7], [7]],
        degree_encoder_1 = None, degree_encoder_2 = None, max_degree = 2\<rparr> example_graph
     = [2, 2, 1, 2]
   \<and> DegreeEncoder_forward id \<lparr>direction = ''in'', degree_encoder = Some [[0], [7], [7]],
        degree_encoder_1 = None, degree_encoder_2 = None, max_degree = 2\<rparr> example_graph
     \<noteq> Inl IndexError"
proof -
  have i: "DegreeEncoder_init 2 1 ''in'' (\<lambda>i j. 7) (\<lambda>i j. 9)
     = Inr \<lparr>direction = ''in'', degree_encoder = Some [[0], [7], [7]],
            degree_encoder_1 = None, degree_encoder_2 = None, max_degree = 2\<rparr>"
    by code_simp
  have d: "in_degrees (homogeneous id example_graph) = [3, 2, 1, 2]"
    by code_simp
  have d': "in_degrees example_graph = [3, 2, 1, 2]"
    by code_simp
  have c: "map (\<lambda>x. if 2 < x then 2 else x) [3, 2, 1, 2] = [2, 2, 1, 2::int]"
    by simp
  from DegreeEncoder_degrees_clamped [OF i, of id example_graph]
  have "in_degree id \<lparr>direction = ''in'', degree_encoder = Some [[0], [7], [7]],
        degree_encoder_1 = None, degree_encoder_2 = None, max_degree = 2\<rparr> example_graph
     = [2, 2, 1, 2]"
    and "DegreeEncoder_forward id \<lparr>direction = ''in'', degree_encoder = Some [[0], [7], [7]],
        degree_encoder_1 = None, degree_encoder_2 = None, max_degree = 2\<rparr> example_graph
     \<noteq> Inl IndexError"
    unfolding d c by blast+
  with i d' show ?thesis by blast
qed

text \<open>
  Claim C6. On a freshly constructed encoder \<open>forward\<close> returns one row per node, and
  the row of a node whose clamped degree is 0 is the zero vector of width
  \<open>embedding_dim\<close>: the in-degree for direction in, the out-degree for direction out,
  both of them for direction both.
\<close>
theorem DegreeEncoder_zero_degree_row:
  assumes "DegreeEncoder_init md ed dir w1 w2 = Inr enc"
    and "dir \<in> {''in'', ''out'', ''both''}"
  shows "\<exists>out. DegreeEncoder_forward hom enc g = Inr out
    \<and> length out = num_nodes (homogeneous hom g)
    \<and> (\<forall>v < num_nodes (homogeneous hom g).
          (dir = ''in'' \<longrightarrow> in_degree hom enc g ! v = 0
             \<longrightarrow> out ! v = replicate (nat ed) 0)
        \<and> (dir = ''out'' \<longrightarrow> out_degree hom enc g ! v = 0
             \<longrightarrow> out ! v = replicate (nat ed) 0)
        \<and> (dir = ''both'' \<longrightarrow> in_degree hom enc g ! v = 0
             \<longrightarrow> out_degree hom enc g ! v = 0
             \<longrightarrow> out ! v = replicate (nat ed) 0))"
proof -
  let ?g = "homogeneous hom g"
  from init_cases [OF assms(1)] have md: "0 \<le> md" "max_degree enc = md" by simp_all
  consider (i) "dir = ''in''" | (o) "dir = ''out''" | (b) "dir = ''both''"
    using assms(2) by auto
  then show ?thesis
  proof cases
    case i
    with init_cases [OF assms(1)] obtain T where
      T: "enc = \<lparr>direction = dir, degree_encoder = Some T, degree_encoder_1 = None,
                 degree_encoder_2 = None, max_degree = md\<rparr>"
        "length T = nat (md + 1)" "T ! 0 = replicate (nat ed) 0"
      by (auto simp: table_shape_def)
    show ?thesis
      using i md(1) T(2,3)
      by (auto simp: T(1) forward_in in_degree_def degrees_length)
  next
    case o
    with init_cases [OF assms(1)] obtain T where
      T: "enc = \<lparr>direction = dir, degree_encoder = Some T, degree_encoder_1 = None,
                 degree_encoder_2 = None, max_degree = md\<rparr>"
        "length T = nat (md + 1)" "T ! 0 = replicate (nat ed) 0"
      by (auto simp: table_shape_def)
    show ?thesis
      using o md(1) T(2,3)
      by (auto simp: T(1) forward_out out_degree_def degrees_length)
  next
    case b
    with init_cases [OF assms(1)] obtain T1 T2 where
      T: "enc = \<lparr>direction = dir, degree_encoder = None, degree_encoder_1 = Some T1,
                 degree_encoder_2 = Some T2, max_degree = md\<rparr>"
        "length T1 = nat (md + 1)" "T1 ! 0 = replicate (nat ed) 0"
        "length T2 = nat (md + 1)" "T2 ! 0 = replicate (nat ed) 0"
      by (auto simp: table_shape_def)
    show ?thesis
      using b md(1) T(2-)
      by (auto simp: T(1) forward_both in_degree_def out_degree_def degrees_length tensor_add_def)
  qed
qed

theorem DegreeEncoder_zero_degree_row_witness:
  "DegreeEncoder_init 1 2 ''both'' (\<lambda>i j. 7) (\<lambda>i j. 9)
     = Inr \<lparr>direction = ''both'', degree_encoder = None, degree_encoder_1 = Some [[0, 0], [7, 7]],
            degree_encoder_2 = Some [[0, 0], [9, 9]], max_degree = 1\<rparr>
   \<and> DegreeEncoder_forward id \<lparr>direction = ''both'', degree_encoder = None,
        degree_encoder_1 = Some [[0, 0], [7, 7]], degree_encoder_2 = Some [[0, 0], [9, 9]],
        max_degree = 1\<rparr> path_graph
     = Inr [[9, 9], [7, 7], [0, 0]]"
proof -
  have i: "DegreeEncoder_init 1 2 ''both'' (\<lambda>i j. 7) (\<lambda>i j. 9)
     = Inr \<lparr>direction = ''both'', degree_encoder = None, degree_encoder_1 = Some [[0, 0], [7, 7]],
            degree_encoder_2 = Some [[0, 0], [9, 9]], max_degree = 1\<rparr>"
    by code_simp
  have f: "DegreeEncoder_forward id \<lparr>direction = ''both'', degree_encoder = None,
        degree_encoder_1 = Some [[0, 0], [7, 7]], degree_encoder_2 = Some [[0, 0], [9, 9]],
        max_degree = 1\<rparr> path_graph
     = Inr [[9, 9], [7, 7], [0, 0]]"
    by code_simp
  show ?thesis
    using DegreeEncoder_zero_degree_row [OF i, of id path_graph] i f by simp
qed



section \<open>Biased multi-head attention: proofs\<close>

subsection \<open>Indices and tabulated tensors\<close>

text \<open>
  \<open>ravel\<close> and \<open>unravel\<close> are inverse to each other on the indices of a shape, so
  that \<open>tab\<close> holds at every index the value it was given there.
\<close>

lemma ravel_less: "valid_index sh idx \<Longrightarrow> ravel sh idx < prod_list sh"
  unfolding valid_index_def
proof (induction idx sh rule: list_all2_induct)
  case Nil
  then show ?case by simp
next
  case (Cons i js d ds)
  have "i * prod_list ds + ravel ds js < i * prod_list ds + prod_list ds"
    using Cons.IH by simp
  also have "\<dots> = Suc i * prod_list ds" by simp
  also have "\<dots> \<le> d * prod_list ds"
    using Cons.hyps(1) by (intro mult_le_mono1) simp
  finally show ?case by simp
qed

lemma unravel_ravel: "valid_index sh idx \<Longrightarrow> unravel sh (ravel sh idx) = idx"
  unfolding valid_index_def
proof (induction idx sh rule: list_all2_induct)
  case Nil
  then show ?case by simp
next
  case (Cons i js d ds)
  have r: "ravel ds js < prod_list ds"
    using Cons.hyps(2) ravel_less [of ds js] by (simp add: valid_index_def)
  then show ?case using Cons.IH by simp
qed

lemma unravel_valid: "k < prod_list sh \<Longrightarrow> valid_index sh (unravel sh k)"
proof (induction sh arbitrary: k)
  case Nil
  then show ?case by (simp add: valid_index_def)
next
  case (Cons d ds)
  from Cons.prems have pos: "0 < prod_list ds"
    by (cases "prod_list ds = 0") simp_all
  have "k div prod_list ds < d"
    using Cons.prems pos by (simp add: less_mult_imp_div_less mult.commute)
  moreover have "valid_index ds (unravel ds (k mod prod_list ds))"
    using Cons.IH pos by simp
  ultimately show ?case by (simp add: valid_index_def)
qed

lemma ravel_unravel: "k < prod_list sh \<Longrightarrow> ravel sh (unravel sh k) = k"
proof (induction sh arbitrary: k)
  case Nil
  then show ?case by simp
next
  case (Cons d ds)
  from Cons.prems have pos: "0 < prod_list ds"
    by (cases "prod_list ds = 0") simp_all
  then show ?case using Cons.IH [of "k mod prod_list ds"] by simp
qed

lemma shape_tab [simp]: "shape (tab sh f) = sh"
  by (simp add: tab_def)

lemma wf_tab [simp]: "well_shaped (tab sh f)"
  by (simp add: tab_def well_shaped_def)

lemma tget_tab: "valid_index sh idx \<Longrightarrow> tget (tab sh f) idx = f idx"
  by (simp add: tget_def tab_def ravel_less unravel_ravel)

lemma tab_cong:
  "(\<And>idx. valid_index sh idx \<Longrightarrow> f idx = g idx) \<Longrightarrow> tab sh f = tab sh g"
  by (simp add: tab_def unravel_valid)

lemma tab_tget: "well_shaped t \<Longrightarrow> tab (shape t) (tget t) = t"
proof -
  assume w: "well_shaped t"
  have "map (\<lambda>k. data t ! ravel (shape t) (unravel (shape t) k)) [0..<prod_list (shape t)]
      = map (\<lambda>k. data t ! k) [0..<prod_list (shape t)]"
    by (simp add: ravel_unravel)
  also have "\<dots> = data t"
    using map_nth [of "data t"] w by (simp add: well_shaped_def)
  finally show ?thesis
    by (simp add: tab_def tget_def)
qed

subsection \<open>Transposes, reshapes and views\<close>

text \<open>
  A transpose is its own inverse on well-shaped tensors. From this the views built by
  \<open>forward\<close> obey the lens law, and a value stored through one of them is the value
  read through it afterwards.
\<close>

lemma swap_dims_length [simp]: "length (swap_dims i j xs) = length xs"
  by (simp add: swap_dims_def)

lemma swap_dims_swap:
  "i < length xs \<Longrightarrow> j < length xs \<Longrightarrow> swap_dims i j (swap_dims i j xs) = xs"
  by (cases "i = j") (simp_all add: swap_dims_def list_update_swap nth_list_update)

lemma valid_swap:
  assumes "valid_index sh idx" and "i < length sh" and "j < length sh"
  shows "valid_index (swap_dims i j sh) (swap_dims i j idx)"
proof -
  from assms(1) have a: "list_all2 (<) idx sh" by (simp add: valid_index_def)
  then have l: "length idx = length sh" by (rule list_all2_lengthD)
  have "idx ! j < sh ! j" "idx ! i < sh ! i"
    using a assms(2,3) l by (simp_all add: list_all2_nthD2)
  then show ?thesis
    unfolding valid_index_def swap_dims_def
    by (intro list_all2_update_cong a)
qed

lemma valid_length: "valid_index sh idx \<Longrightarrow> length idx = length sh"
  by (simp add: valid_index_def list_all2_lengthD)

lemma shape_transpose [simp]: "shape (transpose_t i j t) = swap_dims i j (shape t)"
  by (simp add: transpose_t_def)

lemma wf_transpose [simp]: "well_shaped (transpose_t i j t)"
  by (simp add: transpose_t_def)

lemma tget_transpose:
  "valid_index (swap_dims i j (shape t)) idx \<Longrightarrow>
     tget (transpose_t i j t) idx = tget t (swap_dims i j idx)"
  by (simp add: transpose_t_def tget_tab)

lemma transpose_involution:
  assumes "well_shaped t" and "i < length (shape t)" and "j < length (shape t)"
  shows "transpose_t i j (transpose_t i j t) = t"
proof -
  have "transpose_t i j (transpose_t i j t)
      = tab (shape t) (\<lambda>idx. tget (transpose_t i j t) (swap_dims i j idx))"
    by (simp add: transpose_t_def [of i j "transpose_t i j t"] swap_dims_swap assms)
  also have "\<dots> = tab (shape t) (tget t)"
  proof (rule tab_cong)
    fix idx assume v: "valid_index (shape t) idx"
    then have "valid_index (swap_dims i j (shape t)) (swap_dims i j idx)"
      by (rule valid_swap) (use assms in simp_all)
    then have "tget (transpose_t i j t) (swap_dims i j idx)
        = tget t (swap_dims i j (swap_dims i j idx))"
      by (rule tget_transpose)
    also have "swap_dims i j (swap_dims i j idx) = idx"
      using valid_length [OF v] assms by (simp add: swap_dims_swap)
    finally show "tget (transpose_t i j t) (swap_dims i j idx) = tget t idx" .
  qed
  also have "\<dots> = t" by (rule tab_tget [OF assms(1)])
  finally show ?thesis .
qed

lemma shape_reshape [simp]: "shape (reshape sh t) = sh"
  by (simp add: reshape_def)

lemma data_reshape [simp]: "data (reshape sh t) = data t"
  by (simp add: reshape_def)

lemma wf_reshape: "well_shaped t \<Longrightarrow> prod_list sh = prod_list (shape t) \<Longrightarrow> well_shaped (reshape sh t)"
  by (simp add: well_shaped_def)

lemma reshape_reshape [simp]: "reshape sh (reshape sh' t) = reshape sh t"
  by (simp add: reshape_def)

lemma reshape_same: "shape t = sh \<Longrightarrow> reshape sh t = t"
  by (simp add: reshape_def)

lemma read_append: "base r < length h \<Longrightarrow> read (h @ ys) r = read h r"
  by (simp add: read_def nth_append)

lemma read_transpose_v [simp]: "read h (transpose_v i j r) = transpose_t i j (read h r)"
  by (simp add: read_def transpose_v_def)

lemma base_transpose_v [simp]: "base (transpose_v i j r) = base r"
  by (simp add: transpose_v_def)

lemma read_permute_v [simp]: "read h (permute_v dims r) = permute dims (read h r)"
  by (simp add: read_def permute_v_def)

lemma base_permute_v [simp]: "base (permute_v dims r) = base r"
  by (simp add: permute_v_def)

lemma fresh_spec:
  "fresh t h = (r, h') \<Longrightarrow> h' = h @ [t] \<and> base r = length h \<and> read h' r = t"
  by (auto simp: fresh_def read_def)

lemma reshape_v_spec:
  assumes "reshape_v b sh r h = (r', h')" and "base r < length h"
  shows "(\<exists>ys. h' = h @ ys) \<and> base r' < length h' \<and> read h' r' = reshape sh (read h r)
    \<and> (base r' = base r \<or> length h \<le> base r')"
  using assms by (auto simp: reshape_v_def fresh_def read_def nth_append split: if_splits)

lemma lens_fresh: "fresh t h = (r, h') \<Longrightarrow> lens_law r sh"
  by (auto simp: fresh_def lens_law_def)

lemma lens_transpose:
  assumes "lens_law r (swap_dims i j sh)" and "i < length sh" and "j < length sh"
  shows "lens_law (transpose_v i j r) sh"
  unfolding lens_law_def
proof (intro allI impI)
  fix v s assume v: "well_shaped v \<and> shape v = sh"
  then have "get r (put r (transpose_t i j v) s) = transpose_t i j v"
    using assms(1) by (simp add: lens_law_def)
  then show "get (transpose_v i j r) (put (transpose_v i j r) v s) = v"
    using v assms(2,3) by (simp add: transpose_v_def transpose_involution)
qed

lemma lens_reshape:
  assumes "reshape_v b sh r h = (r', h')"
    and "lens_law r (shape (read h r))" and "prod_list sh = prod_list (shape (read h r))"
  shows "lens_law r' sh"
proof (cases b)
  case True
  show ?thesis
    unfolding lens_law_def
  proof (intro allI impI)
    fix v s assume v: "well_shaped v \<and> shape v = sh"
    have "well_shaped (reshape (shape (read h r)) v)"
      using v assms(3) by (simp add: wf_reshape)
    then have "get r (put r (reshape (shape (read h r)) v) s) = reshape (shape (read h r)) v"
      using assms(2) by (simp add: lens_law_def)
    then show "get r' (put r' v s) = v"
      using assms(1) True v by (auto simp: reshape_v_def reshape_same)
  qed
next
  case False
  then show ?thesis using assms(1) by (auto simp: reshape_v_def intro: lens_fresh)
qed

lemma read_store:
  "lens_law r (shape v) \<Longrightarrow> well_shaped v \<Longrightarrow> base r < length h \<Longrightarrow> read (store r v h) r = v"
  by (simp add: read_def store_def lens_law_def)

lemma read_store_other:
  "base r' \<noteq> base r \<Longrightarrow> read (store r v h) r' = read h r'"
  by (simp add: read_def store_def)

lemma store_append:
  "length h0 \<le> base r \<Longrightarrow> \<exists>ys'. store r v (h0 @ ys) = h0 @ ys'"
  by (auto simp: store_def list_update_append)

lemma length_store [simp]: "length (store r v h) = length h"
  by (simp add: store_def)

subsection \<open>The stages of forward\<close>

text \<open>
  Each stage only appends storages to the store or stores into a storage it allocated
  itself, and the views it returns hold the values of the value functions.
\<close>

lemma shape_F_linear [simp]:
  "shape (F_linear l x) = [shape x ! 0, shape x ! 1, shape (weight l) ! 0]"
  by (simp add: F_linear_def)

lemma project_heads_spec:
  assumes "project_heads self views sc ndata h0 = ((q, k, v), h')" and "base ndata < length h0"
  shows "(\<exists>ys. h' = h0 @ ys) \<and> base q < length h' \<and> base k < length h' \<and> base v < length h'
    \<and> read h' q = q_value self sc (read h0 ndata)
    \<and> read h' k = k_value self (read h0 ndata)
    \<and> read h' v = v_value self (read h0 ndata)"
  using assms
  by (auto simp: project_heads_def fresh_def reshape_v_def Let_def read_def nth_append
      q_value_def k_value_def v_value_def transpose_v_def permute_v_def
      split: if_splits)

lemma swap_dims_02_3 [simp]: "swap_dims 0 2 [a, b, c] = [c, b, a]"
  by (simp add: swap_dims_def numeral_2_eq_2)

lemma swap_dims_02_4 [simp]: "swap_dims 0 2 [a, b, c, d] = [c, b, a, d]"
  by (simp add: swap_dims_def numeral_2_eq_2)

lemma swap_dims_01_3 [simp]:
  "swap_dims 0 1 [a, b, c] = [b, a, c]" "swap_dims 0 (Suc 0) [a, b, c] = [b, a, c]"
  by (simp_all add: swap_dims_def)

lemma shape_bmm [simp]: "shape (bmm a b) = [shape a ! 0, shape a ! 1, shape b ! 2]"
  by (simp add: bmm_def)

lemma wf_bmm [simp]: "well_shaped (bmm a b)"
  by (simp add: bmm_def)

lemma attn_scores_spec:
  assumes "attn_scores self views bsz N q_h k_h h0 = (aw, h')"
    and "base q_h < length h0" and "base k_h < length h0"
    and "shape (read h0 q_h) = [bsz * nat (num_heads self), N, d]"
    and "shape (read h0 k_h) = [bsz * nat (num_heads self), d', N]"
  shows "(\<exists>ys. h' = h0 @ ys) \<and> length h0 \<le> base aw \<and> base aw < length h'
    \<and> read h' aw = transpose_t 0 2 (reshape [N, N, bsz, nat (num_heads self)]
          (transpose_t 0 2 (bmm (read h0 q_h) (read h0 k_h))))
    \<and> lens_law aw [bsz, N, N, nat (num_heads self)]"
proof -
  let ?H = "nat (num_heads self)"
  let ?X = "bmm (read h0 q_h) (read h0 k_h)"
  obtain x h1 where x: "fresh ?X h0 = (x, h1)" by (cases "fresh ?X h0") auto
  obtain r h2 where r: "reshape_v (views 3) [N, N, bsz, ?H] (transpose_v 0 2 x) h1 = (r, h2)"
    by (cases "reshape_v (views 3) [N, N, bsz, ?H] (transpose_v 0 2 x) h1") auto
  from assms(1) x r have aw: "aw = transpose_v 0 2 r" "h' = h2"
    by (simp_all add: attn_scores_def)
  from fresh_spec [OF x] have h1: "h1 = h0 @ [?X]" "base x = length h0" "read h1 x = ?X"
    by blast+
  have bx: "base (transpose_v 0 2 x) < length h1" using h1 by simp
  from reshape_v_spec [OF r bx] h1 obtain ys where
    h2: "h2 = h1 @ ys" "base r < length h2"
      "read h2 r = reshape [N, N, bsz, ?H] (transpose_t 0 2 ?X)"
      "base r = length h0 \<or> length h1 \<le> base r"
    by auto
  have shX: "shape (read h1 x) = [bsz * ?H, N, N]"
    using h1(3) assms(4,5) by simp
  have "lens_law x [bsz * ?H, N, N]" by (rule lens_fresh [OF x])
  then have "lens_law (transpose_v 0 2 x) [N, N, bsz * ?H]"
    by (intro lens_transpose) simp_all
  then have "lens_law r [N, N, bsz, ?H]"
    by (intro lens_reshape [OF r]) (simp_all add: shX)
  then have l: "lens_law aw [bsz, N, N, ?H]"
    unfolding aw by (intro lens_transpose) simp_all
  show ?thesis
    using h1 h2 l by (auto simp: aw)
qed

lemma shape_iadd [simp]: "shape (iadd a b) = shape a"
  by (simp add: iadd_def)

lemma shape_imul [simp]: "shape (imul a b) = shape a"
  by (simp add: imul_def)

lemma shape_index_put [simp]: "shape (index_put t m v) = shape t"
  by (simp add: index_put_def)

lemma wf_ops [simp]: "well_shaped (iadd a b)" "well_shaped (imul a b)" "well_shaped (index_put t m v)" "well_shaped (softmax t)"
  "well_shaped (F_linear l x)" "well_shaped (div_scalar t c)" "well_shaped (F_dropout p u t)" "well_shaped (permute dims t)"
  by (simp_all add: iadd_def imul_def index_put_def softmax_def F_linear_def div_scalar_def
      F_dropout_def permute_def)

lemma shape_div_scalar [simp]: "shape (div_scalar t c) = shape t"
  by (simp add: div_scalar_def)

lemma shape_permute [simp]: "shape (permute dims t) = map (\<lambda>d. shape t ! d) dims"
  by (simp add: permute_def)

lemma shape_softmax [simp]: "shape (softmax t) = shape t"
  by (simp add: softmax_def)

lemma shape_F_dropout [simp]: "shape (F_dropout p u t) = shape t"
  by (simp add: F_dropout_def)

lemma shape_q_value [simp]:
  "shape (q_value self sc x) = [shape x ! 0 * nat (num_heads self), shape x ! 1, nat (head_dim self)]"
  by (simp add: q_value_def)

lemma shape_k_value [simp]:
  "shape (k_value self x) = [shape x ! 0 * nat (num_heads self), nat (head_dim self), shape x ! 1]"
  by (simp add: k_value_def)

lemma shape_v_value [simp]:
  "shape (v_value self x) = [shape x ! 0 * nat (num_heads self), shape x ! 1, nat (head_dim self)]"
  by (simp add: v_value_def)

lemma shape_scores_value [simp]:
  "shape (scores_value self sc x) = [shape x ! 0, shape x ! 1, shape x ! 1, nat (num_heads self)]"
  by (simp add: scores_value_def)

lemma shape_biased_value [simp]: "shape (biased_value self w b) = shape w"
  by (simp add: biased_value_def split: option.splits)

lemma shape_masked_value [simp]: "shape (masked_value w m) = shape w"
  by (simp add: masked_value_def split: option.splits)

lemma store_spec:
  assumes "h = h0 @ ys" and "length h0 \<le> base r" and "base r < length h"
    and "lens_law r (shape v)" and "well_shaped v"
  shows "(\<exists>ys'. store r v h = h0 @ ys') \<and> read (store r v h) r = v"
  using assms store_append [of h0 r v ys] by (simp add: read_store)

lemma read_store_old:
  "base r' < length h0 \<Longrightarrow> length h0 \<le> base r \<Longrightarrow> read (store r v h) r' = read h r'"
  by (simp add: read_store_other)

lemma apply_bias_spec:
  assumes "h = h0 @ ys" and "length h0 \<le> base aw" and "base aw < length h"
    and "lens_law aw (shape (read h aw))"
  shows "(\<exists>ys'. apply_bias self aw b h = h0 @ ys')
    \<and> read (apply_bias self aw b h) aw = biased_value self (read h aw) (map_option (read h) b)
    \<and> length (apply_bias self aw b h) = length h"
proof (cases b)
  case None
  then show ?thesis using assms(1) by (simp add: apply_bias_def biased_value_def)
next
  case (Some bv)
  show ?thesis
  proof (cases "attn_bias_type self = ''add''")
    case True
    with Some store_spec [OF assms(1-3), of "iadd (read h aw) (read h bv)"] assms(4)
    show ?thesis by (simp add: apply_bias_def biased_value_def)
  next
    case False
    with Some store_spec [OF assms(1-3), of "imul (read h aw) (read h bv)"] assms(4)
    show ?thesis by (simp add: apply_bias_def biased_value_def)
  qed
qed

lemma apply_mask_spec:
  assumes "h = h0 @ ys" and "length h0 \<le> base aw" and "base aw < length h"
    and "lens_law aw (shape (read h aw))"
  shows "(\<exists>ys'. apply_mask aw m h = h0 @ ys')
    \<and> read (apply_mask aw m h) aw = masked_value (read h aw) (map_option (read h) m)
    \<and> length (apply_mask aw m h) = length h"
proof (cases m)
  case None
  then show ?thesis using assms(1) by (simp add: apply_mask_def masked_value_def)
next
  case (Some mv)
  with store_spec [OF assms(1-3), of "index_put (read h aw) (read h mv) NInf"] assms(4)
  show ?thesis by (simp add: apply_mask_def masked_value_def)
qed

lemma read_old:
  "h = h0 @ ys \<Longrightarrow> base r < length h0 \<Longrightarrow> read h r = read h0 r"
  by (simp add: read_append)

lemma apply_bias_old:
  "base r < length h0 \<Longrightarrow> length h0 \<le> base aw
     \<Longrightarrow> read (apply_bias self aw b h) r = read h r"
  by (simp add: apply_bias_def read_store_other split: option.splits)

lemma apply_mask_old:
  "base r < length h0 \<Longrightarrow> length h0 \<le> base aw \<Longrightarrow> read (apply_mask aw m h) r = read h r"
  by (simp add: apply_mask_def read_store_other split: option.splits)

lemma attn_softmax_spec:
  assumes "attn_softmax self views bsz N aw h = (p, h')" and "base aw < length h"
  shows "(\<exists>ys. h' = h @ ys) \<and> base p < length h'
    \<and> read h' p = softmax (transpose_t 0 2 (reshape [N, N, bsz * nat (num_heads self)]
          (transpose_t 0 2 (read h aw))))"
  using assms
  by (auto simp: attn_softmax_def fresh_def reshape_v_def Let_def read_def nth_append
      transpose_v_def split: if_splits)

lemma attention_weights_spec:
  assumes run: "attention_weights self views sc ndata attn_bias attn_mask h0 = ((p, v_h), h')"
    and nd: "base ndata < length h0"
    and bb: "\<And>b. attn_bias = Some b \<Longrightarrow> base b < length h0"
    and mm: "\<And>m. attn_mask = Some m \<Longrightarrow> base m < length h0"
  shows "(\<exists>ys. h' = h0 @ ys) \<and> base p < length h' \<and> base v_h < length h'
    \<and> read h' p = probs_value self sc (read h0 ndata) (map_option (read h0) attn_bias)
          (map_option (read h0) attn_mask)
    \<and> read h' v_h = v_value self (read h0 ndata)"
proof -
  let ?x = "read h0 ndata"
  let ?bsz = "shape ?x ! 0"
  let ?N = "shape ?x ! 1"
  let ?H = "nat (num_heads self)"
  obtain q_h k_h v h1 where ph: "project_heads self views sc ndata h0 = ((q_h, k_h, v), h1)"
    by (cases "project_heads self views sc ndata h0") auto
  obtain aw h2 where sc: "attn_scores self views ?bsz ?N q_h k_h h1 = (aw, h2)"
    by (cases "attn_scores self views ?bsz ?N q_h k_h h1") auto
  let ?h3 = "apply_bias self aw attn_bias h2"
  let ?h4 = "apply_mask aw attn_mask ?h3"
  obtain p0 h5 where sm: "attn_softmax self views ?bsz ?N aw ?h4 = (p0, h5)"
    by (cases "attn_softmax self views ?bsz ?N aw ?h4") auto
  from run ph sc sm have res: "p = p0" "v_h = v" "h' = h5"
    by (simp_all add: attention_weights_def Let_def)
  from project_heads_spec [OF ph nd] obtain ys1 where
    h1: "h1 = h0 @ ys1" "base q_h < length h1" "base k_h < length h1" "base v < length h1"
      "read h1 q_h = q_value self sc ?x" "read h1 k_h = k_value self ?x"
      "read h1 v = v_value self ?x"
    by auto
  have "shape (read h1 q_h) = [?bsz * ?H, ?N, nat (head_dim self)]"
    "shape (read h1 k_h) = [?bsz * ?H, nat (head_dim self), ?N]"
    by (simp_all add: h1(5,6))
  from attn_scores_spec [OF sc h1(2,3) this] obtain ys2 where
    h2: "h2 = h1 @ ys2" "length h1 \<le> base aw" "base aw < length h2"
      "read h2 aw = scores_value self sc ?x" "lens_law aw [?bsz, ?N, ?N, ?H]"
    unfolding h1(5,6) scores_value_def by blast
  have h2': "h2 = h0 @ (ys1 @ ys2)" and lb: "length h0 \<le> base aw"
    using h1(1) h2(1,2) by simp_all
  have l2: "lens_law aw (shape (read h2 aw))" using h2(4,5) by simp
  from apply_bias_spec [OF h2' lb h2(3) l2, of self attn_bias] obtain ys3 where
    h3: "?h3 = h0 @ ys3" "length ?h3 = length h2"
      "read ?h3 aw = biased_value self (scores_value self sc ?x) (map_option (read h2) attn_bias)"
    by (auto simp: h2(4))
  have rb: "map_option (read h2) attn_bias = map_option (read h0) attn_bias"
    using bb h2' by (cases attn_bias) (simp_all add: read_append)
  have b3: "base aw < length ?h3" using h3(2) h2(3) by simp
  have l3: "lens_law aw (shape (read ?h3 aw))" using h3(3) h2(5) by simp
  from apply_mask_spec [OF h3(1) lb b3 l3, of attn_mask] obtain ys4 where
    h4: "?h4 = h0 @ ys4" "length ?h4 = length ?h3"
      "read ?h4 aw = masked_value (read ?h3 aw) (map_option (read ?h3) attn_mask)"
    by auto
  have rm: "map_option (read ?h3) attn_mask = map_option (read h0) attn_mask"
    using mm h3(1) by (cases attn_mask) (simp_all add: read_append)
  have b4: "base aw < length ?h4" using h4(2) b3 by simp
  from attn_softmax_spec [OF sm b4] obtain ys5 where
    h5: "h5 = ?h4 @ ys5" "base p0 < length h5"
      "read h5 p0 = softmax (transpose_t 0 2 (reshape [?N, ?N, ?bsz * ?H]
          (transpose_t 0 2 (read ?h4 aw))))"
    by auto
  have v4: "read ?h4 v = read h1 v"
  proof -
    have "base v \<noteq> base aw" using h1(4) h2(2) by simp
    then have "read ?h4 v = read h2 v"
      by (simp add: apply_mask_def apply_bias_def read_store_other split: option.splits)
    then show ?thesis using h2(1) h1(4) by (simp add: read_append)
  qed
  have bv4: "base v < length ?h4" using h4(2) h3(2) h2(1) h1(4) by simp
  have "read h5 v = v_value self ?x"
    using h5(1) bv4 v4 h1(7) by (simp add: read_append)
  moreover have "read h5 p0 = probs_value self sc ?x (map_option (read h0) attn_bias)
          (map_option (read h0) attn_mask)"
    by (simp add: h5(3) h4(3) h3(3) rb rm probs_value_def logits_value_def)
  moreover have "\<exists>ys. h5 = h0 @ ys" using h5(1) h4(1) by simp
  moreover have "base v < length h5" using h5(1) bv4 by simp
  ultimately show ?thesis using h5(2) by (simp add: res)
qed

lemma attn_dropout_spec:
  assumes "attn_dropout self u p h = (p', h')" and "base p < length h"
  shows "(\<exists>ys. h' = h @ ys) \<and> base p' < length h'
    \<and> read h' p' = dropout_value self u (read h p)"
  using assms
  by (auto simp: attn_dropout_def dropout_value_def fresh_def read_def split: if_splits)

lemma attn_output_spec:
  assumes "attn_output self views bsz N p v_h h = (out, h')"
    and "base p < length h" and "base v_h < length h"
  shows "(\<exists>ys. h' = h @ ys) \<and> base out < length h'
    \<and> read h' out = F_linear (out_proj self)
         (transpose_t 0 1 (reshape [N, bsz, nat (feat_size self)]
            (transpose_t 0 1 (bmm (read h p) (read h v_h)))))"
  using assms
  by (auto simp: attn_output_def fresh_def reshape_v_def Let_def read_def nth_append
      transpose_v_def split: if_splits)

lemma forward_spec:
  assumes run: "BiasedMultiheadAttention_forward self views u ndata attn_bias attn_mask h0
      = Inr (out, h')"
    and nd: "base ndata < length h0"
    and bb: "\<And>b. attn_bias = Some b \<Longrightarrow> base b < length h0"
    and mm: "\<And>m. attn_mask = Some m \<Longrightarrow> base m < length h0"
  shows "\<exists>sc ys. scaling self = PyFloat sc \<and> h' = h0 @ ys \<and> base out < length h'
    \<and> forward_error self (read h0 ndata) (map_option (read h0) attn_bias)
          (map_option (read h0) attn_mask) = None
    \<and> read h' out = forward_value self sc u (read h0 ndata) (map_option (read h0) attn_bias)
          (map_option (read h0) attn_mask)"
proof -
  let ?x = "read h0 ndata"
  from run obtain sc where sc: "scaling self = PyFloat sc"
    and ne: "forward_error self ?x (map_option (read h0) attn_bias)
          (map_option (read h0) attn_mask) = None"
    by (auto simp: BiasedMultiheadAttention_forward_def split: option.splits pynum.splits)
  obtain p v_h h1 where aw: "attention_weights self views sc ndata attn_bias attn_mask h0
      = ((p, v_h), h1)"
    by (cases "attention_weights self views sc ndata attn_bias attn_mask h0") auto
  obtain p' h2 where dr: "attn_dropout self u p h1 = (p', h2)"
    by (cases "attn_dropout self u p h1") auto
  from run sc ne aw dr
  have ao: "attn_output self views (shape ?x ! 0) (shape ?x ! 1) p' v_h h2 = (out, h')"
    by (simp add: BiasedMultiheadAttention_forward_def Let_def)
  from attention_weights_spec [OF aw nd bb mm] obtain ys1 where
    h1: "h1 = h0 @ ys1" "base p < length h1" "base v_h < length h1"
      "read h1 p = probs_value self sc ?x (map_option (read h0) attn_bias)
          (map_option (read h0) attn_mask)"
      "read h1 v_h = v_value self ?x"
    by auto
  from attn_dropout_spec [OF dr h1(2)] obtain ys2 where
    h2: "h2 = h1 @ ys2" "base p' < length h2" "read h2 p' = dropout_value self u (read h1 p)"
    by auto
  have bv: "base v_h < length h2" using h2(1) h1(3) by simp
  have rv: "read h2 v_h = v_value self ?x" using h2(1) h1(3,5) by (simp add: read_append)
  from attn_output_spec [OF ao h2(2) bv] obtain ys3 where
    h3: "h' = h2 @ ys3" "base out < length h'"
      "read h' out = F_linear (out_proj self)
         (transpose_t 0 1 (reshape [shape ?x ! 1, shape ?x ! 0, nat (feat_size self)]
            (transpose_t 0 1 (bmm (read h2 p') (read h2 v_h)))))"
    by auto
  have "read h' out = forward_value self sc u ?x (map_option (read h0) attn_bias)
          (map_option (read h0) attn_mask)"
    by (simp add: h3(3) h2(3) h1(4) rv forward_value_def)
  moreover have "h' = h0 @ (ys1 @ ys2 @ ys3)" using h1(1) h2(1) h3(1) by simp
  ultimately show ?thesis using sc ne h3(2) by blast
qed

subsection \<open>The constructor\<close>

lemma div_mult_eq_dvd: "nh \<noteq> 0 \<Longrightarrow> (fs div nh) * nh = fs \<longleftrightarrow> nh dvd (fs::int)"
  by (metis dvd_div_mult_self dvd_triv_right)

lemma fin_t_tab: "(\<And>idx. valid_index sh idx \<Longrightarrow> is_fin (f idx)) \<Longrightarrow> fin_t (tab sh f)"
  by (simp add: fin_t_def tab_def list_all_iff unravel_valid)

lemma nn_Linear_ok:
  "0 \<le> fs \<Longrightarrow> \<exists>l. nn_Linear fs fs b uw ub = Inr l \<and> linear_ok (nat fs) l"
  by (simp add: nn_Linear_def linear_ok_def fin_t_tab)

lemma xavier_ok [simp]:
  "well_shaped (xavier_uniform w g u)" "shape (xavier_uniform w g u) = shape w" "fin_t (xavier_uniform w g u)"
  by (simp_all add: xavier_uniform_def fin_t_tab)

lemma constant_ok [simp]:
  "well_shaped (constant_fill b c)" "shape (constant_fill b c) = shape b" "fin_t (constant_fill b c)"
  by (simp_all add: constant_fill_def fin_t_tab)

lemma init_success:
  assumes "0 < nh" and "nh dvd fs" and "0 < fs" and "0 \<le> p" and "p \<le> 1"
  shows "\<exists>m. BiasedMultiheadAttention_init fs nh b ty p u = Inr m \<and> module_ok m
    \<and> feat_size m = fs \<and> num_heads m = nh \<and> head_dim m = fs div nh
    \<and> scaling m = PyFloat (real_of_int (fs div nh) powr (- 1 / 2))
    \<and> attn_bias_type m = ty \<and> dropout m = p \<and> training m"
proof -
  from assms(1,2,3) have hd: "0 < fs div nh"
    by (simp add: pos_imp_zdiv_pos_iff zdvd_imp_le)
  have eq: "(fs div nh) * nh = fs" using assms(1,2) by simp
  have fs: "0 \<le> fs" using assms(3) by simp
  obtain q where q: "nn_Linear fs fs b (u 0) (u 1 0) = Inr q" "linear_ok (nat fs) q"
    using nn_Linear_ok [OF fs] by blast
  obtain k where k: "nn_Linear fs fs b (u 2) (u 3 0) = Inr k" "linear_ok (nat fs) k"
    using nn_Linear_ok [OF fs] by blast
  obtain v where v: "nn_Linear fs fs b (u 4) (u 5 0) = Inr v" "linear_ok (nat fs) v"
    using nn_Linear_ok [OF fs] by blast
  obtain out where out: "nn_Linear fs fs b (u 6) (u 7 0) = Inr out" "linear_ok (nat fs) out"
    using nn_Linear_ok [OF fs] by blast
  have lo: "linear_ok (nat fs) \<lparr>weight = xavier_uniform (weight out) 1 (u 11),
        bias = map_option (\<lambda>b. constant_fill b 0) (bias out)\<rparr>"
    using out(2) by (auto simp: linear_ok_def split: option.splits)
  have lw: "\<And>l g w. linear_ok (nat fs) l \<Longrightarrow> linear_ok (nat fs) (l\<lparr>weight := xavier_uniform (weight l) g w\<rparr>)"
    by (auto simp: linear_ok_def split: option.splits)
  show ?thesis
    using assms(1,4,5) hd eq q k v out lo lw
    by (simp add: BiasedMultiheadAttention_init_def py_pow_neg_half_def nn_Dropout_def
        reset_parameters_def module_ok_def)
qed

lemma forward_succeeds:
  assumes "forward_error self (read h0 ndata) (map_option (read h0) attn_bias)
          (map_option (read h0) attn_mask) = None"
    and "scaling self = PyFloat sc"
  shows "\<exists>out h'. BiasedMultiheadAttention_forward self views u ndata attn_bias attn_mask h0
      = Inr (out, h')"
  using assms
  by (simp add: BiasedMultiheadAttention_forward_def Let_def split: prod.splits)

text \<open>
  Claim C3, as amended. For a positive \<open>num_heads\<close>, the constructor ends in the
  AssertionError when \<open>num_heads\<close> does not divide \<open>feat_size\<close>; it succeeds when
  \<open>num_heads\<close> divides a positive \<open>feat_size\<close> and \<open>attn_drop\<close> lies in [0, 1];
  for \<open>feat_size = 0\<close> it ends in the ZeroDivisionError of \<open>head_dim ** -0.5\<close>.
\<close>

theorem BiasedMultiheadAttention_init_divisible:
  assumes "0 < nh"
  shows "(\<not> nh dvd fs \<longrightarrow> BiasedMultiheadAttention_init fs nh b ty p u = Inl AssertionError)
    \<and> (nh dvd fs \<and> 0 < fs \<and> 0 \<le> p \<and> p \<le> 1 \<longrightarrow>
         (\<exists>m. BiasedMultiheadAttention_init fs nh b ty p u = Inr m \<and> feat_size m = fs
            \<and> num_heads m = nh \<and> head_dim m = fs div nh))
    \<and> (fs = 0 \<longrightarrow> BiasedMultiheadAttention_init fs nh b ty p u = Inl ZeroDivisionError)"
proof (intro conjI impI)
  assume "\<not> nh dvd fs"
  then show "BiasedMultiheadAttention_init fs nh b ty p u = Inl AssertionError"
    using assms div_mult_eq_dvd [of nh fs] by (simp add: BiasedMultiheadAttention_init_def)
next
  assume "nh dvd fs \<and> 0 < fs \<and> 0 \<le> p \<and> p \<le> 1"
  then show "\<exists>m. BiasedMultiheadAttention_init fs nh b ty p u = Inr m \<and> feat_size m = fs
      \<and> num_heads m = nh \<and> head_dim m = fs div nh"
    using init_success [OF assms, of fs p b ty u] by blast
next
  assume "fs = 0"
  then show "BiasedMultiheadAttention_init fs nh b ty p u = Inl ZeroDivisionError"
    using assms by (simp add: BiasedMultiheadAttention_init_def py_pow_neg_half_def)
qed

theorem BiasedMultiheadAttention_init_divisible_witness:
  "BiasedMultiheadAttention_init 10 3 True ''add'' (1 / 10) (\<lambda>k i j. 0) = Inl AssertionError
   \<and> (\<exists>m. BiasedMultiheadAttention_init 8 2 True ''add'' (1 / 10) (\<lambda>k i j. 0) = Inr m
        \<and> feat_size m = 8 \<and> num_heads m = 2 \<and> head_dim m = 4)"
  using BiasedMultiheadAttention_init_divisible [of 3 10 True "''add''" "1 / 10" "\<lambda>k i j. 0"]
    BiasedMultiheadAttention_init_divisible [of 2 8 True "''add''" "1 / 10" "\<lambda>k i j. 0"]
  by simp

text \<open>
  The claim as stated fails at \<open>feat_size = 0\<close>, \<open>num_heads = 1\<close>: 1 divides 0 and
  the constructor raises.
\<close>

theorem BiasedMultiheadAttention_init_zero_feat_size:
  "(1::int) dvd 0
   \<and> BiasedMultiheadAttention_init 0 1 True ''add'' (1 / 10) (\<lambda>k i j. 0) = Inl ZeroDivisionError"
  by (simp add: BiasedMultiheadAttention_init_def py_pow_neg_half_def)

text \<open>
  Claim C9. \<open>forward\<close> leaves every storage that existed before the call as it was,
  so \<open>ndata\<close>, \<open>attn_bias\<close> and \<open>attn_mask\<close> hold after the call the values they
  held before it, whether the reshapes return views or copies.
\<close>

theorem forward_inputs_unchanged:
  assumes "base ndata < length h0"
    and "case attn_bias of None \<Rightarrow> True | Some b \<Rightarrow> base b < length h0"
    and "case attn_mask of None \<Rightarrow> True | Some m \<Rightarrow> base m < length h0"
  shows "case BiasedMultiheadAttention_forward self views u ndata attn_bias attn_mask h0 of
      Inl e \<Rightarrow> True
    | Inr (out, h') \<Rightarrow>
        take (length h0) h' = h0
      \<and> read h' ndata = read h0 ndata
      \<and> map_option (read h') attn_bias = map_option (read h0) attn_bias
      \<and> map_option (read h') attn_mask = map_option (read h0) attn_mask"
proof (cases "BiasedMultiheadAttention_forward self views u ndata attn_bias attn_mask h0")
  case (Inl e)
  then show ?thesis by simp
next
  case (Inr res)
  obtain out h' where res: "res = (out, h')" by (cases res)
  have bb: "\<And>b. attn_bias = Some b \<Longrightarrow> base b < length h0"
    using assms(2) by simp
  have mm: "\<And>m. attn_mask = Some m \<Longrightarrow> base m < length h0"
    using assms(3) by simp
  from forward_spec [OF Inr [unfolded res] assms(1) bb mm]
  obtain ys where h': "h' = h0 @ ys" by blast
  have "map_option (read h') attn_bias = map_option (read h0) attn_bias"
    using bb h' by (cases attn_bias) (simp_all add: read_append)
  moreover have "map_option (read h') attn_mask = map_option (read h0) attn_mask"
    using mm h' by (cases attn_mask) (simp_all add: read_append)
  ultimately show ?thesis
    using Inr res h' assms(1) by (simp add: read_append)
qed

theorem forward_inputs_unchanged_witness:
  "case BiasedMultiheadAttention_forward (example_module 1 1 1) (\<lambda>k. True) (\<lambda>idx. 0)
      (root_view 0) (Some (root_view 1)) (Some (root_view 2))
      [ones [1, 2, 1], ones [1, 2, 2, 1], \<lparr>shape = [1, 2, 2], data = [Fin 0, Fin 1, Fin 0, Fin 0]\<rparr>] of
      Inl e \<Rightarrow> False
    | Inr (out, h') \<Rightarrow>
        take 3 h' = [ones [1, 2, 1], ones [1, 2, 2, 1],
                     \<lparr>shape = [1, 2, 2], data = [Fin 0, Fin 1, Fin 0, Fin 0]\<rparr>]
      \<and> read h' (root_view 0) = ones [1, 2, 1]
      \<and> read h' (root_view 1) = ones [1, 2, 2, 1]
      \<and> read h' (root_view 2) = \<lparr>shape = [1, 2, 2], data = [Fin 0, Fin 1, Fin 0, Fin 0]\<rparr>"
proof -
  let ?h0 = "[ones [1, 2, 1], ones [1, 2, 2, 1],
      \<lparr>shape = [1, 2, 2], data = [Fin 0, Fin 1, Fin 0, Fin 0]\<rparr>]"
  have e: "forward_error (example_module 1 1 1) (read ?h0 (root_view 0))
      (map_option (read ?h0) (Some (root_view 1))) (map_option (read ?h0) (Some (root_view 2)))
      = None"
    by code_simp
  have s: "scaling (example_module 1 1 1) = PyFloat 1"
    by (simp add: example_module_def)
  from forward_succeeds [OF e s] obtain out h' where
    r: "BiasedMultiheadAttention_forward (example_module 1 1 1) (\<lambda>k. True) (\<lambda>idx. 0)
      (root_view 0) (Some (root_view 1)) (Some (root_view 2)) ?h0 = Inr (out, h')"
    by blast
  have b: "base (root_view 0) < length ?h0"
    "case Some (root_view 1) of None \<Rightarrow> True | Some b \<Rightarrow> base b < length ?h0"
    "case Some (root_view 2) of None \<Rightarrow> True | Some m \<Rightarrow> base m < length ?h0"
    by (simp_all add: root_view_def)
  from forward_inputs_unchanged [OF b, of "example_module 1 1 1" "\<lambda>k. True" "\<lambda>idx. 0"]
  show ?thesis
    unfolding r by (simp add: read_def root_view_def numeral_3_eq_3)
qed

subsection \<open>Repeated calls\<close>

lemma xdiv_one [simp]: "xdiv x (Fin 1) = x"
  by (cases x) simp_all

lemma F_dropout_zero:
  assumes "well_shaped t" and "\<forall>idx. 0 \<le> u idx"
  shows "F_dropout 0 u t = t"
proof -
  have "F_dropout 0 u t = tab (shape t) (tget t)"
    using assms(2) by (simp add: F_dropout_def)
  then show ?thesis using tab_tget [OF assms(1)] by simp
qed

lemma wf_probs_value [simp]: "well_shaped (probs_value self sc x b m)"
  by (simp add: probs_value_def)

lemma dropout_value_off:
  assumes "\<not> training self \<or> dropout self = 0" and "\<forall>idx. 0 \<le> u idx" and "well_shaped p"
  shows "dropout_value self u p = p"
  using assms by (auto simp: dropout_value_def F_dropout_zero)

lemma forward_value_off:
  assumes "\<not> training self \<or> dropout self = 0" and "\<forall>idx. 0 \<le> u idx"
  shows "forward_value self sc u x b m
    = F_linear (out_proj self)
       (transpose_t 0 1
          (reshape [shape x ! 1, shape x ! 0, nat (feat_size self)]
             (transpose_t 0 1 (bmm (probs_value self sc x b m) (v_value self x)))))"
  using assms by (simp add: forward_value_def dropout_value_off)

lemma shape_forward_value [simp]:
  "shape (forward_value self sc u x b m)
     = [shape x ! 0, shape x ! 1, shape (weight (out_proj self)) ! 0]"
  by (simp add: forward_value_def)

lemma forward_error_shape:
  assumes "forward_error self x b m = None"
  shows "shape x = [shape x ! 0, shape x ! 1, shape (weight (q_proj self)) ! 1]"
proof -
  from assms have l: "length (shape x) = 3"
    and e: "last (shape x) = shape (weight (q_proj self)) ! 1"
    by (auto simp: forward_error_def Let_def split: if_splits)
  then obtain a b' c where s: "shape x = [a, b', c]"
    by (cases "shape x"; cases "tl (shape x)"; cases "tl (tl (shape x))") auto
  with e show ?thesis by simp
qed

text \<open>
  Claim C8. With dropout disabled (inference mode, or probability 0) a module in order
  returns, on inputs of the documented shapes, an output of the shape
  \<open>(batch, N, feat_size)\<close> of \<open>ndata\<close>, and a second call on the same inputs, in the
  store the first call left, with other random draws and other choices of views,
  returns the same value; the first output still holds it.
\<close>

theorem forward_deterministic:
  assumes ok: "module_ok self"
    and sh: "forward_error self (read h0 ndata) (map_option (read h0) attn_bias)
          (map_option (read h0) attn_mask) = None"
    and off: "\<not> training self \<or> dropout self = 0"
    and u1: "\<forall>idx. 0 \<le> u1 idx" and u2: "\<forall>idx. 0 \<le> u2 idx"
    and nd: "base ndata < length h0"
    and bb: "case attn_bias of None \<Rightarrow> True | Some b \<Rightarrow> base b < length h0"
    and mm: "case attn_mask of None \<Rightarrow> True | Some m \<Rightarrow> base m < length h0"
  shows "\<exists>out1 h1 out2 h2.
      BiasedMultiheadAttention_forward self views1 u1 ndata attn_bias attn_mask h0 = Inr (out1, h1)
    \<and> BiasedMultiheadAttention_forward self views2 u2 ndata attn_bias attn_mask h1 = Inr (out2, h2)
    \<and> read h2 out2 = read h1 out1
    \<and> read h2 out1 = read h1 out1
    \<and> shape (read h1 out1)
        = [shape (read h0 ndata) ! 0, shape (read h0 ndata) ! 1, nat (feat_size self)]
    \<and> shape (read h1 out1) = shape (read h0 ndata)"
proof -
  let ?x = "read h0 ndata"
  let ?b = "map_option (read h0) attn_bias"
  let ?m = "map_option (read h0) attn_mask"
  from ok obtain sc where sc: "scaling self = PyFloat sc"
    by (auto simp: module_ok_def split: pynum.splits)
  have b0: "\<And>b. attn_bias = Some b \<Longrightarrow> base b < length h0" using bb by simp
  have m0: "\<And>m. attn_mask = Some m \<Longrightarrow> base m < length h0" using mm by simp
  from forward_succeeds [OF sh sc] obtain out1 h1 where
    r1: "BiasedMultiheadAttention_forward self views1 u1 ndata attn_bias attn_mask h0
      = Inr (out1, h1)"
    by blast
  from forward_spec [OF r1 nd b0 m0] sc obtain ys1 where
    h1: "h1 = h0 @ ys1" "base out1 < length h1"
      "read h1 out1 = forward_value self sc u1 ?x ?b ?m"
    by auto
  have x1: "read h1 ndata = ?x" using h1(1) nd by (simp add: read_append)
  have b1: "map_option (read h1) attn_bias = ?b"
    using b0 h1(1) by (cases attn_bias) (simp_all add: read_append)
  have m1: "map_option (read h1) attn_mask = ?m"
    using m0 h1(1) by (cases attn_mask) (simp_all add: read_append)
  have sh1: "forward_error self (read h1 ndata) (map_option (read h1) attn_bias)
          (map_option (read h1) attn_mask) = None"
    using sh by (simp add: x1 b1 m1)
  from forward_succeeds [OF sh1 sc] obtain out2 h2 where
    r2: "BiasedMultiheadAttention_forward self views2 u2 ndata attn_bias attn_mask h1
      = Inr (out2, h2)"
    by blast
  have nd1: "base ndata < length h1" using h1(1) nd by simp
  have b1': "\<And>b. attn_bias = Some b \<Longrightarrow> base b < length h1" using b0 h1(1) by fastforce
  have m1': "\<And>m. attn_mask = Some m \<Longrightarrow> base m < length h1" using m0 h1(1) by fastforce
  from forward_spec [OF r2 nd1 b1' m1'] sc obtain ys2 where
    h2: "h2 = h1 @ ys2"
      "read h2 out2 = forward_value self sc u2 (read h1 ndata) (map_option (read h1) attn_bias)
          (map_option (read h1) attn_mask)"
    by auto
  have eq: "read h2 out2 = read h1 out1"
    unfolding h2(2) h1(3) x1 b1 m1
    by (simp add: forward_value_off [OF off u1] forward_value_off [OF off u2])
  have keep: "read h2 out1 = read h1 out1"
    using h2(1) h1(2) by (simp add: read_append)
  have q: "shape (weight (q_proj self)) ! 1 = nat (feat_size self)"
    and o: "shape (weight (out_proj self)) ! 0 = nat (feat_size self)"
    using ok by (simp_all add: module_ok_def linear_ok_def)
  have s1: "shape (read h1 out1) = [shape ?x ! 0, shape ?x ! 1, nat (feat_size self)]"
    by (simp add: h1(3) o)
  have s2: "shape (read h1 out1) = shape ?x"
    using forward_error_shape [OF sh] q s1 by simp
  show ?thesis using r1 r2 eq keep s1 s2 by blast
qed

theorem forward_deterministic_witness:
  "\<exists>out1 h1 out2 h2.
      BiasedMultiheadAttention_forward ((example_module 2 4 (1 / 2))\<lparr>training := True\<rparr>)
        (\<lambda>k. True) (\<lambda>idx. 0) (root_view 0) (Some (root_view 1)) None
        [ones [2, 4, 8], zeros [2, 4, 4, 2]] = Inr (out1, h1)
    \<and> BiasedMultiheadAttention_forward ((example_module 2 4 (1 / 2))\<lparr>training := True\<rparr>)
        (\<lambda>k. False) (\<lambda>idx. 1 / 2) (root_view 0) (Some (root_view 1)) None h1 = Inr (out2, h2)
    \<and> read h2 out2 = read h1 out1
    \<and> shape (read h1 out1) = [2, 4, 8]"
proof -
  let ?m = "(example_module 2 4 (1 / 2))\<lparr>training := True\<rparr>"
  let ?h0 = "[ones [2, 4, 8], zeros [2, 4, 4, 2]]"
  have ok: "module_ok ?m" by code_simp
  have sh: "forward_error ?m (read ?h0 (root_view 0)) (map_option (read ?h0) (Some (root_view 1)))
      (map_option (read ?h0) None) = None"
    by code_simp
  have off: "\<not> training ?m \<or> dropout ?m = 0" by (simp add: example_module_def)
  have u1: "\<forall>idx::nat list. (0::real) \<le> 0" and u2: "\<forall>idx::nat list. (0::real) \<le> 1 / 2"
    by simp_all
  have nd: "base (root_view 0) < length ?h0"
    and bb: "case Some (root_view 1) of None \<Rightarrow> True | Some b \<Rightarrow> base b < length ?h0"
    and mm: "case None of None \<Rightarrow> True | Some (m::view) \<Rightarrow> base m < length ?h0"
    by (simp_all add: root_view_def)
  have x: "shape (read ?h0 (root_view 0)) = [2, 4, 8]"
    by (simp add: read_def root_view_def ones_def)
  from forward_deterministic [OF ok sh off u1 u2 nd bb mm, of "\<lambda>k. True" "\<lambda>k. False"]
  show ?thesis unfolding x by (auto simp: example_module_def)
qed

subsection \<open>Finite tensors\<close>

text \<open>Every operation before the mask keeps finite tensors finite.\<close>

lemma is_fin_iff: "is_fin x \<longleftrightarrow> (\<exists>a. x = Fin a)"
  by (cases x) simp_all

lemma is_fin_xadd: "is_fin x \<Longrightarrow> is_fin y \<Longrightarrow> is_fin (xadd x y)"
  by (auto simp: is_fin_iff)

lemma is_fin_xmul: "is_fin x \<Longrightarrow> is_fin y \<Longrightarrow> is_fin (xmul x y)"
  by (auto simp: is_fin_iff)

lemma is_fin_xsum: "list_all is_fin xs \<Longrightarrow> is_fin (xsum xs)"
  by (induction xs) (simp_all add: xsum_def is_fin_xadd)

lemma is_fin_xdiv: "is_fin x \<Longrightarrow> c \<noteq> 0 \<Longrightarrow> is_fin (xdiv x (Fin c))"
  by (auto simp: is_fin_iff)

lemma is_fin_tget:
  assumes "fin_t t" and "well_shaped t" and "valid_index (shape t) idx"
  shows "is_fin (tget t idx)"
proof -
  have "ravel (shape t) idx < length (data t)"
    using ravel_less [OF assms(3)] assms(2) by (simp add: well_shaped_def)
  then show ?thesis
    using assms(1) by (simp add: tget_def fin_t_def list_all_length)
qed

lemma valid_swap_back:
  assumes "valid_index (swap_dims i j sh) idx" and "i < length sh" and "j < length sh"
  shows "valid_index sh (swap_dims i j idx)"
  using valid_swap [OF assms(1), of i j] assms(2,3) by (simp add: swap_dims_swap)

lemma fin_t_transpose:
  assumes "fin_t t" and "well_shaped t" and "i < length (shape t)" and "j < length (shape t)"
  shows "fin_t (transpose_t i j t)"
  unfolding transpose_t_def
  by (rule fin_t_tab) (intro is_fin_tget assms(1,2) valid_swap_back assms(3,4))

lemma fin_t_reshape [simp]: "fin_t (reshape sh t) = fin_t t"
  by (simp add: fin_t_def)

lemma valid_index_3:
  "valid_index [a, b, c] idx \<longleftrightarrow> (\<exists>i j k. idx = [i, j, k] \<and> i < a \<and> j < b \<and> k < c)"
  by (auto simp: valid_index_def list_all2_Cons2)

lemma valid_index_4:
  "valid_index [a, b, c, d] idx
     \<longleftrightarrow> (\<exists>i j k l. idx = [i, j, k, l] \<and> i < a \<and> j < b \<and> k < c \<and> l < d)"
  by (auto simp: valid_index_def list_all2_Cons2)

lemma valid_index_2:
  "valid_index [a, b] idx \<longleftrightarrow> (\<exists>i j. idx = [i, j] \<and> i < a \<and> j < b)"
  by (auto simp: valid_index_def list_all2_Cons2)

lemma valid_index_1: "valid_index [a] idx \<longleftrightarrow> (\<exists>i. idx = [i] \<and> i < a)"
  by (auto simp: valid_index_def list_all2_Cons2)

lemma inverse_perm_120 [simp]:
  "inverse_perm [1, 2, 0] = [2, 0, 1]" "inverse_perm [Suc 0, 2, 0] = [2, 0, 1]"
  by (simp_all add: inverse_perm_def index_of_def numeral_3_eq_3 numeral_2_eq_2 upt_rec)

lemma fin_t_permute_120:
  assumes "fin_t t" and "well_shaped t" and "shape t = [a, b, c]"
  shows "fin_t (permute [1, 2, 0] t)"
  unfolding permute_def
proof (rule fin_t_tab)
  fix idx assume "valid_index (map (\<lambda>d. shape t ! d) [1, 2, 0]) idx"
  then obtain i j k where idx: "idx = [i, j, k]" "i < b" "j < c" "k < a"
    by (auto simp: assms(3) valid_index_3)
  then have "valid_index (shape t) (map (\<lambda>k. idx ! k) (inverse_perm [1, 2, 0]))"
    by (simp add: assms(3) valid_index_3)
  then show "is_fin (tget t (map (\<lambda>k. idx ! k) (inverse_perm [1, 2, 0])))"
    by (rule is_fin_tget [OF assms(1,2)])
qed

lemma fin_t_F_linear:
  assumes "fin_t x" and "well_shaped x" and "shape x = [bsz, N, F]" and "linear_ok F l"
  shows "fin_t (F_linear l x)"
  unfolding F_linear_def
proof (rule fin_t_tab)
  fix idx assume "valid_index [shape x ! 0, shape x ! 1, shape (weight l) ! 0] idx"
  then obtain i j k where idx: "idx = [i, j, k]" "i < bsz" "j < N" "k < F"
    using assms(3,4) by (auto simp: valid_index_3 linear_ok_def)
  have w: "fin_t (weight l)" "well_shaped (weight l)" "shape (weight l) = [F, F]"
    using assms(4) by (simp_all add: linear_ok_def)
  have "list_all is_fin (map (\<lambda>f. xmul (tget x [idx ! 0, idx ! 1, f])
      (tget (weight l) [idx ! 2, f])) [0..<shape x ! 2])"
    using idx assms(1,2,3) w
    by (auto simp: list_all_iff valid_index_3 valid_index_2 intro!: is_fin_xmul is_fin_tget)
  then have s: "is_fin (xsum (map (\<lambda>f. xmul (tget x [idx ! 0, idx ! 1, f])
      (tget (weight l) [idx ! 2, f])) [0..<shape x ! 2]))"
    by (rule is_fin_xsum)
  show "is_fin (let s = xsum (map (\<lambda>f. xmul (tget x [idx ! 0, idx ! 1, f])
      (tget (weight l) [idx ! 2, f])) [0..<shape x ! 2])
      in case bias l of None \<Rightarrow> s | Some b \<Rightarrow> xadd s (tget b [idx ! 2]))"
  proof (cases "bias l")
    case None
    then show ?thesis using s by simp
  next
    case (Some b)
    then have "fin_t b" "well_shaped b" "shape b = [F]"
      using assms(4) by (simp_all add: linear_ok_def)
    then have "is_fin (tget b [idx ! 2])"
      using idx by (intro is_fin_tget) (simp_all add: valid_index_1)
    then show ?thesis using s Some by (simp add: is_fin_xadd)
  qed
qed

lemma fin_t_div_scalar:
  assumes "fin_t t" and "well_shaped t" and "c \<noteq> 0"
  shows "fin_t (div_scalar t c)"
  unfolding div_scalar_def
  by (rule fin_t_tab) (intro is_fin_xdiv is_fin_tget assms)

lemma fin_t_bmm:
  assumes "fin_t a" and "well_shaped a" and "shape a = [B, n, m]"
    and "fin_t b" and "well_shaped b" and "shape b = [B, m, p]"
  shows "fin_t (bmm a b)"
  unfolding bmm_def
proof (rule fin_t_tab)
  fix idx assume "valid_index [shape a ! 0, shape a ! 1, shape b ! 2] idx"
  then obtain i j k where idx: "idx = [i, j, k]" "i < B" "j < n" "k < p"
    using assms(3,6) by (auto simp: valid_index_3)
  have "list_all is_fin (map (\<lambda>k. xmul (tget a [idx ! 0, idx ! 1, k])
      (tget b [idx ! 0, k, idx ! 2])) [0..<shape a ! 2])"
    using idx assms
    by (auto simp: list_all_iff valid_index_3 intro!: is_fin_xmul is_fin_tget)
  then show "is_fin (xsum (map (\<lambda>k. xmul (tget a [idx ! 0, idx ! 1, k])
      (tget b [idx ! 0, k, idx ! 2])) [0..<shape a ! 2]))"
    by (rule is_fin_xsum)
qed

lemma fin_t_iadd:
  assumes "fin_t a" and "well_shaped a" and "fin_t b" and "well_shaped b" and "shape b = shape a"
  shows "fin_t (iadd a b)" and "fin_t (imul a b)"
  unfolding iadd_def imul_def
  by (rule fin_t_tab; intro is_fin_xadd is_fin_xmul is_fin_tget assms; simp add: assms)+

subsection \<open>Masked rows of the softmax\<close>

lemma module_ok_sizes:
  assumes "module_ok self"
  shows "nat (feat_size self) = nat (head_dim self) * nat (num_heads self)"
    and "0 < nat (num_heads self)" and "0 < nat (head_dim self)"
proof -
  from assms have p: "0 < num_heads self" "0 < head_dim self"
    "head_dim self * num_heads self = feat_size self"
    by (simp_all add: module_ok_def)
  show "nat (feat_size self) = nat (head_dim self) * nat (num_heads self)"
    using p by (simp add: nat_mult_distrib [symmetric])
  show "0 < nat (num_heads self)" "0 < nat (head_dim self)" using p by simp_all
qed

lemma fin_t_scores_value:
  assumes ok: "module_ok self" and sc: "scaling self = PyFloat sc"
    and x: "fin_t x" "well_shaped x" "shape x = [bsz, N, nat (feat_size self)]"
  shows "fin_t (scores_value self sc x)"
proof -
  let ?H = "nat (num_heads self)"
  let ?d = "nat (head_dim self)"
  let ?F = "nat (feat_size self)"
  have F: "?F = ?d * ?H" by (rule module_ok_sizes [OF ok])
  from ok sc have sc0: "sc \<noteq> 0" by (simp add: module_ok_def)
  from ok have lq: "linear_ok ?F (q_proj self)" and lk: "linear_ok ?F (k_proj self)"
    by (simp_all add: module_ok_def)
  have shq: "shape (weight (q_proj self)) = [?F, ?F]" "shape (weight (k_proj self)) = [?F, ?F]"
    using lq lk by (simp_all add: linear_ok_def)
  have split: "\<And>l. linear_ok ?F l \<Longrightarrow> shape (weight l) = [?F, ?F] \<Longrightarrow>
      fin_t (reshape [N, bsz * ?H, ?d] (transpose_t 0 1 (F_linear l x)))
      \<and> well_shaped (reshape [N, bsz * ?H, ?d] (transpose_t 0 1 (F_linear l x)))"
  proof -
    fix l assume l: "linear_ok ?F l" "shape (weight l) = [?F, ?F]"
    have "fin_t (transpose_t 0 1 (F_linear l x))"
      by (intro fin_t_transpose fin_t_F_linear [OF x l(1)]) (simp_all add: x)
    moreover have "well_shaped (reshape [N, bsz * ?H, ?d] (transpose_t 0 1 (F_linear l x)))"
      by (intro wf_reshape) (simp_all add: x l(2) F)
    ultimately show "fin_t (reshape [N, bsz * ?H, ?d] (transpose_t 0 1 (F_linear l x)))
      \<and> well_shaped (reshape [N, bsz * ?H, ?d] (transpose_t 0 1 (F_linear l x)))"
      by simp
  qed
  have q: "fin_t (q_value self sc x)"
    unfolding q_value_def x(3)
    using split [OF lq shq(1)]
    by (intro fin_t_div_scalar fin_t_transpose sc0) simp_all
  have k: "fin_t (k_value self x)"
    unfolding k_value_def x(3)
    using split [OF lk shq(2)]
    by (intro fin_t_permute_120 [where a = N and b = "bsz * ?H" and c = ?d]) simp_all
  have "fin_t (bmm (q_value self sc x) (k_value self x))"
    by (rule fin_t_bmm [OF q _ _ k]) (simp_all add: x q_value_def k_value_def)
  then have "fin_t (transpose_t 0 2 (bmm (q_value self sc x) (k_value self x)))"
    by (intro fin_t_transpose) (simp_all add: x)
  moreover have "well_shaped (reshape [N, N, bsz, ?H]
      (transpose_t 0 2 (bmm (q_value self sc x) (k_value self x))))"
    by (intro wf_reshape) (simp_all add: x)
  ultimately show ?thesis
    unfolding scores_value_def x(3)
    by (intro fin_t_transpose) simp_all
qed

lemma wf_scores_value [simp]: "well_shaped (scores_value self sc x)"
  by (simp add: scores_value_def)

lemma fin_t_biased_value:
  assumes "fin_t w" and "well_shaped w"
    and "case b of None \<Rightarrow> True | Some bt \<Rightarrow> fin_t bt \<and> well_shaped bt \<and> shape bt = shape w"
  shows "fin_t (biased_value self w b)"
  using assms by (auto simp: biased_value_def fin_t_iadd split: option.splits)

lemma wf_biased_value: "well_shaped w \<Longrightarrow> well_shaped (biased_value self w b)"
  by (simp add: biased_value_def split: option.splits)

lemma less_head_index: "b < bsz \<Longrightarrow> h < H \<Longrightarrow> b * H + h < bsz * (H::nat)"
proof -
  assume a: "b < bsz" "h < H"
  then have "b * H + h < b * H + H" by simp
  also have "\<dots> = Suc b * H" by simp
  also have "\<dots> \<le> bsz * H" using a(1) by (intro mult_le_mono1) simp
  finally show ?thesis .
qed

lemma logits_at:
  assumes sh: "shape w = [bsz, N, N, H]" and m: "shape mt = [bsz, N, N]"
    and i: "b < bsz" "i < N" "k < N" "h < H"
  shows "tget (transpose_t 0 2 (reshape [N, N, bsz * H] (transpose_t 0 2 (index_put w mt NInf))))
      [b * H + h, i, k]
    = (if to_bool (tget mt [b, i, k]) then NInf else tget w [b, i, k, h])"
proof -
  let ?M = "index_put w mt NInf"
  let ?T = "transpose_t 0 2 ?M"
  have bh: "b * H + h < bsz * H" using i by (simp add: less_head_index)
  have shT: "shape ?T = [N, N, bsz, H]" by (simp add: sh)
  have "tget (transpose_t 0 2 (reshape [N, N, bsz * H] ?T)) [b * H + h, i, k]
      = tget (reshape [N, N, bsz * H] ?T) [k, i, b * H + h]"
    using tget_transpose [of 0 2 "reshape [N, N, bsz * H] ?T" "[b * H + h, i, k]"] i bh
    by (simp add: valid_index_3)
  also have "\<dots> = data ?T ! ravel [N, N, bsz * H] [k, i, b * H + h]"
    by (simp add: tget_def)
  also have "ravel [N, N, bsz * H] [k, i, b * H + h] = ravel [N, N, bsz, H] [k, i, b, h]"
    by (simp add: algebra_simps)
  also have "data ?T ! ravel [N, N, bsz, H] [k, i, b, h] = tget ?T [k, i, b, h]"
    by (simp add: tget_def sh)
  also have "\<dots> = tget ?M [b, i, k, h]"
    using tget_transpose [of 0 2 ?M "[k, i, b, h]"] i by (simp add: sh valid_index_4)
  also have "\<dots> = (if to_bool (tget mt [b, i, k]) then NInf else tget w [b, i, k, h])"
    using i by (simp add: index_put_def tget_tab sh m valid_index_4)
  finally show ?thesis .
qed

lemma foldr_xmax_cases:
  "list_all (\<lambda>x. x = NInf \<or> is_fin x) xs
     \<Longrightarrow> foldr xmax xs NInf = NInf \<or> is_fin (foldr xmax xs NInf)"
  by (induction xs) (auto simp: is_fin_iff)

lemma foldr_xmax_fin:
  "list_all (\<lambda>x. x = NInf \<or> is_fin x) xs \<Longrightarrow> y \<in> set xs \<Longrightarrow> is_fin y
     \<Longrightarrow> is_fin (foldr xmax xs NInf)"
proof (induction xs)
  case Nil
  then show ?case by simp
next
  case (Cons x xs)
  from Cons.prems(1) have t: "foldr xmax xs NInf = NInf \<or> is_fin (foldr xmax xs NInf)"
    by (simp add: foldr_xmax_cases)
  show ?case
  proof (cases "y = x")
    case True
    then show ?thesis using Cons.prems(3) t by (auto simp: is_fin_iff)
  next
    case False
    then have "is_fin (foldr xmax xs NInf)" using Cons by simp
    then show ?thesis using Cons.prems(1) by (auto simp: is_fin_iff)
  qed
qed

lemma xexp_shift_nonneg:
  "x = NInf \<or> is_fin x \<Longrightarrow> \<exists>e \<ge> 0. xexp (xsub x (Fin m)) = Fin e \<and> (is_fin x \<longrightarrow> 0 < e)"
  by (auto simp: is_fin_iff xsub_def)

lemma xsum_nonneg:
  "list_all (\<lambda>x. \<exists>e \<ge> 0. x = Fin e) es \<Longrightarrow> \<exists>s \<ge> 0. xsum es = Fin s"
  by (induction es) (auto simp: xsum_def)

lemma xsum_pos:
  "list_all (\<lambda>x. \<exists>e \<ge> 0. x = Fin e) es \<Longrightarrow> Fin e0 \<in> set es \<Longrightarrow> 0 < e0
     \<Longrightarrow> \<exists>s > 0. xsum es = Fin s"
proof (induction es)
  case Nil
  then show ?case by simp
next
  case (Cons x es)
  from Cons.prems(1) obtain e where e: "x = Fin e" "0 \<le> e" by auto
  from Cons.prems(1) obtain s where s: "xsum es = Fin s" "0 \<le> s"
    using xsum_nonneg [of es] by auto
  show ?case
  proof (cases "Fin e0 = x")
    case True
    then have "0 < e + s" using e s Cons.prems(3) by simp
    then show ?thesis using e s by (simp add: xsum_def)
  next
    case False
    then obtain s' where "xsum es = Fin s'" "0 < s'" using Cons by auto
    then show ?thesis using e by (simp add: xsum_def add_nonneg_pos)
  qed
qed

lemma softmax_masked_zero:
  assumes sh: "shape t = [B, n, N]" and i: "a < B" "i < n" "j < N" "j' < N"
    and row: "\<And>k. k < N \<Longrightarrow> tget t [a, i, k] = NInf \<or> is_fin (tget t [a, i, k])"
    and masked: "tget t [a, i, j] = NInf" and unmasked: "is_fin (tget t [a, i, j'])"
  shows "tget (softmax t) [a, i, j] = Fin 0"
proof -
  let ?row = "map (\<lambda>k. tget t [a, i, k]) [0..<N]"
  have r: "list_all (\<lambda>x. x = NInf \<or> is_fin x) ?row"
    using row by (simp add: list_all_iff)
  have "tget t [a, i, j'] \<in> set ?row" using i(4) by simp
  from foldr_xmax_fin [OF r this unmasked] obtain m where m: "foldr xmax ?row NInf = Fin m"
    by (auto simp: is_fin_iff)
  let ?es = "map (\<lambda>x. xexp (xsub x (Fin m))) ?row"
  have es: "list_all (\<lambda>x. \<exists>e \<ge> 0. x = Fin e) ?es"
    using row xexp_shift_nonneg [of _ m] by (fastforce simp: list_all_iff)
  from unmasked obtain e0 where e0: "xexp (xsub (tget t [a, i, j']) (Fin m)) = Fin e0" "0 < e0"
    using xexp_shift_nonneg [of "tget t [a, i, j']" m] by auto
  have "Fin e0 \<in> set ?es" using i(4) e0(1) by (auto simp: image_iff intro!: bexI [of _ j'])
  from xsum_pos [OF es this e0(2)] obtain s where s: "xsum ?es = Fin s" "0 < s" by auto
  have "tget (softmax t) [a, i, j]
      = xdiv (xexp (xsub (tget t [a, i, j]) (Fin m))) (xsum ?es)"
    using i by (simp add: softmax_def tget_tab sh valid_index_3 m Let_def)
  also have "\<dots> = Fin 0"
    using s by (simp add: masked xsub_def)
  finally show ?thesis .
qed

lemma foldr_xmax_all_ninf: "list_all (\<lambda>x. x = NInf) xs \<Longrightarrow> foldr xmax xs NInf = NInf"
  by (induction xs) simp_all

lemma softmax_all_ninf:
  assumes sh: "shape t = [B, n, N]" and i: "a < B" "i < n" "j < N"
    and row: "\<And>k. k < N \<Longrightarrow> tget t [a, i, k] = NInf"
  shows "tget (softmax t) [a, i, j] = NaN"
proof -
  let ?row = "map (\<lambda>k. tget t [a, i, k]) [0..<N]"
  have "list_all (\<lambda>x. x = NInf) ?row" using row by (simp add: list_all_iff)
  then have m: "foldr xmax ?row NInf = NInf" by (rule foldr_xmax_all_ninf)
  have "tget (softmax t) [a, i, j]
      = xdiv (xexp (xsub (tget t [a, i, j]) NInf)) (xsum (map (\<lambda>x. xexp (xsub x NInf)) ?row))"
    using i by (simp add: softmax_def tget_tab sh valid_index_3 m Let_def)
  also have "\<dots> = NaN"
    by (simp add: row [OF i(3)] xsub_def)
  finally show ?thesis .
qed

lemma masked_row_zero:
  assumes sh: "shape w = [bsz, N, N, H]" and m: "shape mt = [bsz, N, N]"
    and i: "bi < bsz" "i < N" "j < N" "j' < N" "h < H"
    and masked: "to_bool (tget mt [bi, i, j])"
    and unmasked: "\<not> to_bool (tget mt [bi, i, j'])"
    and fin: "is_fin (tget w [bi, i, j', h])"
    and row: "\<And>k. k < N \<Longrightarrow> to_bool (tget mt [bi, i, k]) \<or> tget w [bi, i, k, h] = NInf
        \<or> is_fin (tget w [bi, i, k, h])"
  shows "tget (softmax (transpose_t 0 2 (reshape [N, N, bsz * H]
      (transpose_t 0 2 (index_put w mt NInf))))) [bi * H + h, i, j] = Fin 0"
proof -
  let ?L = "transpose_t 0 2 (reshape [N, N, bsz * H] (transpose_t 0 2 (index_put w mt NInf)))"
  have L: "\<And>k. k < N \<Longrightarrow>
      tget ?L [bi * H + h, i, k] = (if to_bool (tget mt [bi, i, k]) then NInf
        else tget w [bi, i, k, h])"
    using logits_at [OF sh m i(1,2) _ i(5)] by simp
  have shL: "shape ?L = [bsz * H, N, N]" by simp
  show ?thesis
  proof (rule softmax_masked_zero [OF shL _ i(2,3,4)])
    show "bi * H + h < bsz * H" using i by (simp add: less_head_index)
    show "\<And>k. k < N \<Longrightarrow> tget ?L [bi * H + h, i, k] = NInf
        \<or> is_fin (tget ?L [bi * H + h, i, k])"
      using L row by auto
    show "tget ?L [bi * H + h, i, j] = NInf" using L [OF i(3)] masked by simp
    show "is_fin (tget ?L [bi * H + h, i, j'])" using L [OF i(4)] unmasked fin by simp
  qed
qed

text \<open>
  Claim C2, as amended. Whatever scores \<open>attn_weights\<close> holds after the bias, the
  masked assignment and the softmax of lines 205 to 213 give the probability exactly 0
  at each position where the mask is not zero, for every head, in every query row in
  which the score of some unmasked key is finite and no unmasked score is \<open>+inf\<close> or
  \<open>nan\<close>.
\<close>

theorem masked_positions_get_zero_probability:
  assumes lens: "lens_law attn_weights [bsz, N, N, nat (num_heads self)]"
    and aw: "base attn_weights < length h"
    and sh: "shape (read h attn_weights) = [bsz, N, N, nat (num_heads self)]"
    and mt: "shape (read h attn_mask) = [bsz, N, N]"
    and i: "b < bsz" "i < N" "j < N" "j' < N" "hh < nat (num_heads self)"
    and masked: "to_bool (tget (read h attn_mask) [b, i, j])"
    and unmasked: "\<not> to_bool (tget (read h attn_mask) [b, i, j'])"
    and fin: "is_fin (tget (read h attn_weights) [b, i, j', hh])"
    and row: "\<forall>k < N. to_bool (tget (read h attn_mask) [b, i, k])
        \<or> tget (read h attn_weights) [b, i, k, hh] = NInf
        \<or> is_fin (tget (read h attn_weights) [b, i, k, hh])"
  shows "case attn_softmax self views bsz N attn_weights
           (apply_mask attn_weights (Some attn_mask) h) of
      (p, h') \<Rightarrow> tget (read h' p) [b * nat (num_heads self) + hh, i, j] = Fin 0"
proof -
  let ?H = "nat (num_heads self)"
  let ?w = "read h attn_weights"
  let ?m = "read h attn_mask"
  let ?h4 = "apply_mask attn_weights (Some attn_mask) h"
  obtain p h' where run: "attn_softmax self views bsz N attn_weights ?h4 = (p, h')"
    by (cases "attn_softmax self views bsz N attn_weights ?h4") auto
  have l: "lens_law attn_weights (shape (index_put ?w ?m NInf))"
    using lens by (simp add: sh)
  have r4: "read ?h4 attn_weights = index_put ?w ?m NInf"
    by (simp add: apply_mask_def read_store [OF l _ aw])
  have b4: "base attn_weights < length ?h4"
    using aw by (simp add: apply_mask_def)
  from attn_softmax_spec [OF run b4]
  have "read h' p = softmax (transpose_t 0 2 (reshape [N, N, bsz * ?H]
      (transpose_t 0 2 (index_put ?w ?m NInf))))"
    by (simp add: r4)
  moreover have "tget (softmax (transpose_t 0 2 (reshape [N, N, bsz * ?H]
      (transpose_t 0 2 (index_put ?w ?m NInf))))) [b * ?H + hh, i, j] = Fin 0"
    using row by (intro masked_row_zero [OF sh mt i masked unmasked fin]) simp
  ultimately show ?thesis by (simp add: run)
qed

theorem masked_positions_get_zero_probability_witness:
  "case attn_softmax (example_module 1 1 1) (\<lambda>k. True) 1 2 (root_view 0)
      (apply_mask (root_view 0) (Some (root_view 1))
        [\<lparr>shape = [1, 2, 2, 1], data = [Fin 3, Fin 5, NInf, Fin 0]\<rparr>,
         \<lparr>shape = [1, 2, 2], data = [Fin 0, Fin 1, Fin 0, Fin 1]\<rparr>]) of
      (p, h') \<Rightarrow> tget (read h' p) [0, 0, 1] = Fin 0"
proof -
  let ?m = "example_module 1 1 1"
  let ?h = "[\<lparr>shape = [1, 2, 2, 1], data = [Fin 3, Fin 5, NInf, Fin 0]\<rparr>,
         \<lparr>shape = [1, 2, 2], data = [Fin 0, Fin 1, Fin 0, Fin 1]\<rparr>]"
  have nh: "nat (num_heads ?m) = 1" by (simp add: example_module_def)
  have lens: "lens_law (root_view 0) [1, 2, 2, nat (num_heads ?m)]"
    by (simp add: lens_law_def root_view_def)
  have aw: "base (root_view 0) < length ?h" by (simp add: root_view_def)
  have sh: "shape (read ?h (root_view 0)) = [1, 2, 2, nat (num_heads ?m)]"
    by (simp add: read_def root_view_def example_module_def)
  have mt: "shape (read ?h (root_view 1)) = [1, 2, 2]"
    by (simp add: read_def root_view_def)
  have i: "(0::nat) < 1" "(0::nat) < 2" "(1::nat) < 2" "(0::nat) < 2" "0 < nat (num_heads ?m)"
    by (simp_all add: example_module_def)
  have masked: "to_bool (tget (read ?h (root_view 1)) [0, 0, 1])"
    by code_simp
  have unmasked: "\<not> to_bool (tget (read ?h (root_view 1)) [0, 0, 0])"
    by code_simp
  have fin: "is_fin (tget (read ?h (root_view 0)) [0, 0, 0, 0])"
    by code_simp
  have row: "\<forall>k < 2. to_bool (tget (read ?h (root_view 1)) [0, 0, k])
        \<or> tget (read ?h (root_view 0)) [0, 0, k, 0] = NInf
        \<or> is_fin (tget (read ?h (root_view 0)) [0, 0, k, 0])"
    by code_simp
  from masked_positions_get_zero_probability
    [OF lens aw sh mt i masked unmasked fin row, of "\<lambda>k. True"]
  show ?thesis by (simp add: example_module_def)
qed

lemma attention_weights_masked_zero:
  assumes nd: "base ndata < length h0"
    and bb: "case attn_bias of None \<Rightarrow> True | Some bv \<Rightarrow> base bv < length h0"
    and mv: "base mv < length h0"
    and x: "shape (read h0 ndata) = [bsz, N, F]"
    and mt: "shape (read h0 mv) = [bsz, N, N]"
    and i: "b < bsz" "i < N" "j < N" "j' < N" "hh < nat (num_heads self)"
    and masked: "to_bool (tget (read h0 mv) [b, i, j])"
    and unmasked: "\<not> to_bool (tget (read h0 mv) [b, i, j'])"
    and fin: "is_fin (tget (biased_value self (scores_value self sc (read h0 ndata))
        (map_option (read h0) attn_bias)) [b, i, j', hh])"
    and row: "\<forall>k < N. to_bool (tget (read h0 mv) [b, i, k])
        \<or> tget (biased_value self (scores_value self sc (read h0 ndata))
              (map_option (read h0) attn_bias)) [b, i, k, hh] = NInf
        \<or> is_fin (tget (biased_value self (scores_value self sc (read h0 ndata))
              (map_option (read h0) attn_bias)) [b, i, k, hh])"
  shows "case attention_weights self views sc ndata attn_bias (Some mv) h0 of
      ((p, v_h), h') \<Rightarrow> tget (read h' p) [b * nat (num_heads self) + hh, i, j] = Fin 0"
proof -
  let ?B = "biased_value self (scores_value self sc (read h0 ndata))
      (map_option (read h0) attn_bias)"
  obtain p v_h h' where
    run: "attention_weights self views sc ndata attn_bias (Some mv) h0 = ((p, v_h), h')"
    by (cases "attention_weights self views sc ndata attn_bias (Some mv) h0") auto
  have b0: "\<And>bv. attn_bias = Some bv \<Longrightarrow> base bv < length h0" using bb by simp
  have m0: "\<And>m. Some mv = Some m \<Longrightarrow> base m < length h0" using mv by simp
  from attention_weights_spec [OF run nd b0 m0]
  have r: "read h' p = probs_value self sc (read h0 ndata) (map_option (read h0) attn_bias)
      (Some (read h0 mv))"
    by simp
  have shB: "shape ?B = [bsz, N, N, nat (num_heads self)]" by (simp add: x)
  have "tget (softmax (transpose_t 0 2 (reshape [N, N, bsz * nat (num_heads self)]
      (transpose_t 0 2 (index_put ?B (read h0 mv) NInf)))))
      [b * nat (num_heads self) + hh, i, j] = Fin 0"
    using row by (intro masked_row_zero [OF shB mt i masked unmasked fin]) simp
  then show ?thesis
    unfolding run by (simp add: r probs_value_def logits_value_def masked_value_def x)
qed

lemma probs_row_without_finite_score:
  assumes ok: "module_ok self" and sc: "scaling self = PyFloat sc"
    and add: "attn_bias_type self = ''add''"
    and x: "fin_t x" "well_shaped x" "shape x = [bsz, N, nat (feat_size self)]"
    and bt: "shape bt = [bsz, N, N, nat (num_heads self)]"
    and mt: "shape mt = [bsz, N, N]"
    and i: "bi < bsz" "i < N" "j < N" "h < nat (num_heads self)"
    and row: "\<And>k. k < N \<Longrightarrow> to_bool (tget mt [bi, i, k]) \<or> tget bt [bi, i, k, h] = NInf"
  shows "tget (probs_value self sc x (Some bt) (Some mt)) [bi * nat (num_heads self) + h, i, j]
    = NaN"
proof -
  let ?H = "nat (num_heads self)"
  let ?S = "scores_value self sc x"
  let ?B = "iadd ?S bt"
  let ?L = "logits_value self sc x (Some bt) (Some mt)"
  have shS: "shape ?S = [bsz, N, N, ?H]" by (simp add: x)
  have fS: "fin_t ?S" by (rule fin_t_scores_value [OF ok sc x])
  have B: "\<And>k. k < N \<Longrightarrow> tget bt [bi, i, k, h] = NInf \<Longrightarrow> tget ?B [bi, i, k, h] = NInf"
  proof -
    fix k assume k: "k < N" and n: "tget bt [bi, i, k, h] = NInf"
    have v: "valid_index (shape ?S) [bi, i, k, h]"
      using i k by (simp add: x valid_index_4)
    have "is_fin (tget ?S [bi, i, k, h])"
      by (rule is_fin_tget [OF fS _ v]) simp
    then obtain a where "tget ?S [bi, i, k, h] = Fin a" by (auto simp: is_fin_iff)
    then show "tget ?B [bi, i, k, h] = NInf"
      using v n by (simp add: iadd_def tget_tab)
  qed
  have shB: "shape ?B = [bsz, N, N, ?H]" by (simp add: x)
  have L: "\<And>k. k < N \<Longrightarrow> tget ?L [bi * ?H + h, i, k] = NInf"
    using logits_at [OF shB mt i(1,2) _ i(4)] B row
    by (auto simp: logits_value_def masked_value_def biased_value_def add x)
  have shL: "shape ?L = [bsz * ?H, N, N]"
    by (simp add: logits_value_def x)
  have "tget (softmax ?L) [bi * ?H + h, i, j] = NaN"
  proof (rule softmax_all_ninf [OF shL _ i(2,3)])
    show "bi * ?H + h < bsz * ?H" using i by (simp add: less_head_index)
    show "\<And>k. k < N \<Longrightarrow> tget ?L [bi * ?H + h, i, k] = NInf" by (rule L)
  qed
  then show ?thesis by (simp add: probs_value_def)
qed

text \<open>
  The claim as stated fails when the only unmasked key of a row has the score
  \<open>-inf\<close>: with an additive bias of \<open>-inf\<close> at that key the row holds nothing but
  \<open>-inf\<close>, and the softmax returns \<open>nan\<close> at the masked position.
\<close>

theorem masked_position_with_infinite_bias:
  "to_bool (tget \<lparr>shape = [1, 2, 2], data = [Fin 0, Fin 1, Fin 0, Fin 0]\<rparr> [0, 0, 1])
   \<and> \<not> to_bool (tget \<lparr>shape = [1, 2, 2], data = [Fin 0, Fin 1, Fin 0, Fin 0]\<rparr> [0, 0, 0])
   \<and> (case attention_weights (example_module 1 1 1) (\<lambda>k. True) 1 (root_view 0)
          (Some (root_view 1)) (Some (root_view 2))
          [ones [1, 2, 1],
           \<lparr>shape = [1, 2, 2, 1], data = [NInf, Fin 0, Fin 0, Fin 0]\<rparr>,
           \<lparr>shape = [1, 2, 2], data = [Fin 0, Fin 1, Fin 0, Fin 0]\<rparr>] of
        ((p, v_h), h') \<Rightarrow> tget (read h' p) [0, 0, 1] = NaN)"
proof -
  let ?m = "example_module 1 1 1"
  let ?bt = "\<lparr>shape = [1, 2, 2, 1], data = [NInf, Fin 0, Fin 0, Fin 0]\<rparr>"
  let ?mt = "\<lparr>shape = [1, 2, 2], data = [Fin 0, Fin 1, Fin 0, Fin 0]\<rparr>"
  let ?h0 = "[ones [1, 2, 1], ?bt, ?mt]"
  have ok: "module_ok ?m" by code_simp
  have sc: "scaling ?m = PyFloat 1" by (simp add: example_module_def)
  have add: "attn_bias_type ?m = ''add''" by (simp add: example_module_def)
  have x: "fin_t (ones [1, 2, 1])" "well_shaped (ones [1, 2, 1])"
    by code_simp+
  have xs: "shape (ones [1, 2, 1]) = [1, 2, nat (feat_size ?m)]"
    by code_simp
  have bt: "shape ?bt = [1, 2, 2, nat (num_heads ?m)]"
    by (simp add: example_module_def)
  have mt: "shape ?mt = [1, 2, 2]" by simp
  have i: "(0::nat) < 1" "(0::nat) < 2" "(1::nat) < 2" "0 < nat (num_heads ?m)"
    by (simp_all add: example_module_def)
  have m1: "to_bool (tget ?mt [0, 0, 1])" and m0: "\<not> to_bool (tget ?mt [0, 0, 0])"
    by code_simp+
  have b0: "tget ?bt [0, 0, 0, 0] = NInf" by code_simp
  have row: "\<And>k. k < 2 \<Longrightarrow> to_bool (tget ?mt [0, 0, k]) \<or> tget ?bt [0, 0, k, 0] = NInf"
  proof -
    fix k :: nat assume "k < 2"
    then have "k = 0 \<or> k = 1" by arith
    then show "to_bool (tget ?mt [0, 0, k]) \<or> tget ?bt [0, 0, k, 0] = NInf"
      using m1 b0 by auto
  qed
  have v: "tget (probs_value ?m 1 (ones [1, 2, 1]) (Some ?bt) (Some ?mt))
      [0 * nat (num_heads ?m) + 0, 0, 1] = NaN"
    by (rule probs_row_without_finite_score [OF ok sc add x xs bt mt i row])
  obtain p v_h h' where run: "attention_weights ?m (\<lambda>k. True) 1 (root_view 0)
      (Some (root_view 1)) (Some (root_view 2)) ?h0 = ((p, v_h), h')"
    by (cases "attention_weights ?m (\<lambda>k. True) 1 (root_view 0)
      (Some (root_view 1)) (Some (root_view 2)) ?h0") auto
  have nd: "base (root_view 0) < length ?h0" by (simp add: root_view_def)
  have bb: "\<And>b. Some (root_view 1) = Some b \<Longrightarrow> base b < length ?h0"
    by (auto simp: root_view_def)
  have mm: "\<And>m. Some (root_view 2) = Some m \<Longrightarrow> base m < length ?h0"
    by (auto simp: root_view_def)
  from attention_weights_spec [OF run nd bb mm]
  have "read h' p = probs_value ?m 1 (ones [1, 2, 1]) (Some ?bt) (Some ?mt)"
    by (simp add: read_def root_view_def)
  then have "tget (read h' p) [0, 0, 1] = NaN" using v by simp
  with m1 m0 show ?thesis unfolding run by simp
qed

subsection \<open>The scaling of the query\<close>

lemma tget_reshape: "tget (reshape sh t) idx = data t ! ravel sh idx"
  by (simp add: tget_def)

lemma data_transpose_nth:
  "k < prod_list (swap_dims i j (shape t)) \<Longrightarrow>
     data (transpose_t i j t) ! k
       = tget t (swap_dims i j (unravel (swap_dims i j (shape t)) k))"
  by (simp add: transpose_t_def tab_def)

lemma tget_bmm:
  "valid_index [shape a ! 0, shape a ! 1, shape b ! 2] idx \<Longrightarrow>
     tget (bmm a b) idx
       = xsum (map (\<lambda>k. xmul (tget a [idx ! 0, idx ! 1, k]) (tget b [idx ! 0, k, idx ! 2]))
           [0..<shape a ! 2])"
  by (simp add: bmm_def tget_tab)

lemma tget_div_scalar:
  "valid_index (shape t) idx \<Longrightarrow> tget (div_scalar t c) idx = xdiv (tget t idx) (Fin c)"
  by (simp add: div_scalar_def tget_tab)

lemma tget_permute:
  "valid_index (map (\<lambda>d. shape t ! d) dims) idx \<Longrightarrow>
     tget (permute dims t) idx = tget t (map (\<lambda>k. idx ! k) (inverse_perm dims))"
  by (simp add: permute_def tget_tab)

lemma tget_F_linear:
  "valid_index [shape x ! 0, shape x ! 1, shape (weight l) ! 0] idx \<Longrightarrow>
     tget (F_linear l x) idx
       = (let s = xsum (map (\<lambda>f. xmul (tget x [idx ! 0, idx ! 1, f])
                                    (tget (weight l) [idx ! 2, f]))
                       [0..<shape x ! 2])
          in case bias l of None \<Rightarrow> s | Some b \<Rightarrow> xadd s (tget b [idx ! 2]))"
  by (simp add: F_linear_def tget_tab)

lemma shape_eye [simp]: "shape (eye n) = [n, n]"
  by (simp add: eye_def)

lemma tget_eye:
  "i < n \<Longrightarrow> j < n \<Longrightarrow> tget (eye n) [i, j] = (if i = j then Fin 1 else Fin 0)"
  by (simp add: eye_def tget_tab valid_index_2)

lemma upt_4: "[0..<4] = [0, 1, 2, 3]"
  by code_simp

lemma less_4: "k < 4 \<Longrightarrow> k = 0 \<or> k = 1 \<or> k = 2 \<or> k = (3::nat)"
  by arith

lemma shape_unit_input [simp]: "shape unit_input = [1, 1, 4]"
  by (simp add: unit_input_def)

lemma tget_unit_input:
  "tget unit_input [0, 0, 0] = Fin 1" "tget unit_input [0, 0, 1] = Fin 0"
  "tget unit_input [0, 0, Suc 0] = Fin 0"
  "tget unit_input [0, 0, 2] = Fin 0" "tget unit_input [0, 0, 3] = Fin 0"
  by (simp_all add: unit_input_def tget_def)

lemma linear_unit_input:
  assumes "k < 4"
  shows "tget (F_linear \<lparr>weight = eye 4, bias = None\<rparr> unit_input) [0, 0, k]
      = (if k = 0 then Fin 1 else Fin 0)"
  using less_4 [OF assms]
  by (auto simp: tget_F_linear valid_index_3 upt_4 tget_eye tget_unit_input xsum_def)

lemma heads_unit_input:
  assumes "k < 4"
  shows "tget (reshape [1, 1, 4]
      (transpose_t 0 1 (F_linear \<lparr>weight = eye 4, bias = None\<rparr> unit_input))) [0, 0, k]
    = (if k = 0 then Fin 1 else Fin 0)"
  using assms by (simp add: tget_reshape data_transpose_nth linear_unit_input)

lemma scores_example:
  "tget (scores_value (example_module 1 4 (1 / 2)) (1 / 2) unit_input) [0, 0, 0, 0] = Fin 2"
proof -
  let ?m = "example_module (Suc 0) 4 (1 / 2)"
  have q: "\<And>k. k < 4 \<Longrightarrow> tget (q_value ?m (1 / 2) unit_input) [0, 0, k]
      = (if k = 0 then Fin 2 else Fin 0)"
    using heads_unit_input
    by (simp add: q_value_def example_module_def tget_div_scalar tget_transpose valid_index_3)
  have k: "\<And>k. k < 4 \<Longrightarrow> tget (k_value ?m unit_input) [0, k, 0]
      = (if k = 0 then Fin 1 else Fin 0)"
    using heads_unit_input
    by (simp add: k_value_def example_module_def tget_permute valid_index_3)
  have sh: "shape (q_value ?m (1 / 2) unit_input) = [1, 1, 4]"
    "shape (k_value ?m unit_input) = [1, 4, 1]"
    by (simp_all add: example_module_def)
  have b: "tget (bmm (q_value ?m (1 / 2) unit_input) (k_value ?m unit_input)) [0, 0, 0] = Fin 2"
    by (simp add: tget_bmm sh valid_index_3 q k upt_4 xsum_def
        del: shape_q_value shape_k_value)
  have nh: "nat (num_heads ?m) = 1" by (simp add: example_module_def)
  have shX: "shape (bmm (q_value ?m (1 / 2) unit_input) (k_value ?m unit_input)) = [1, 1, 1]"
    by (simp add: sh del: shape_q_value shape_k_value)
  show ?thesis
    using b
    by (simp add: scores_value_def tget_transpose valid_index_4 tget_reshape data_transpose_nth
        shX nh del: shape_bmm)
qed

lemma py_pow_neg_half_4: "py_pow_neg_half 4 = Inr (PyFloat (1 / 2))"
proof -
  have "(4::real) powr (- 1 / 2) = 1 / 4 powr (1 / 2)"
    by (simp add: powr_minus_divide)
  also have "\<dots> = 1 / 2"
    by (simp add: powr_half_sqrt)
  finally show ?thesis by (simp add: py_pow_neg_half_def)
qed

text \<open>
  Claim C1 at a concrete input: one head of width 4, so \<open>scaling = 4 ** -0.5 = 1/2\<close>,
  identity projections and one node with features \<open>(1, 0, 0, 0)\<close>. The product of
  query and key is 1 and the scaled score should be \<open>1 / sqrt 4 = 1/2\<close>; line 188
  divides the query by \<open>scaling\<close>, and the score is 2.
\<close>

theorem forward_divides_query_by_scaling:
  "py_pow_neg_half 4 = Inr (PyFloat (1 / 2))
   \<and> (case project_heads (example_module 1 4 (1 / 2)) (\<lambda>k. True) (1 / 2) (root_view 0)
            [unit_input] of
        ((q_h, k_h, v_h), h1) \<Rightarrow>
          (case attn_scores (example_module 1 4 (1 / 2)) (\<lambda>k. True) 1 1 q_h k_h h1 of
             (attn_weights, h2) \<Rightarrow> tget (read h2 attn_weights) [0, 0, 0, 0])) = Fin 2"
proof -
  let ?m = "example_module (Suc 0) 4 (1 / 2)"
  let ?v = "\<lambda>k::nat. True"
  obtain q_h k_h v_h h1 where
    ph: "project_heads ?m ?v (1 / 2) (root_view 0) [unit_input] = ((q_h, k_h, v_h), h1)"
    by (cases "project_heads ?m ?v (1 / 2) (root_view 0) [unit_input]") auto
  obtain aw h2 where sc: "attn_scores ?m ?v (Suc 0) (Suc 0) q_h k_h h1 = (aw, h2)"
    by (cases "attn_scores ?m ?v (Suc 0) (Suc 0) q_h k_h h1") auto
  have nd: "base (root_view 0) < length [unit_input]" by (simp add: root_view_def)
  have x: "read [unit_input] (root_view 0) = unit_input" by (simp add: read_def root_view_def)
  from project_heads_spec [OF ph nd]
  have h1: "base q_h < length h1" "base k_h < length h1"
    "read h1 q_h = q_value ?m (1 / 2) unit_input" "read h1 k_h = k_value ?m unit_input"
    by (simp_all add: x)
  have nh: "nat (num_heads ?m) = Suc 0" "nat (head_dim ?m) = 4"
    by (simp_all add: example_module_def)
  have shq: "shape (read h1 q_h) = [Suc 0 * nat (num_heads ?m), Suc 0, 4]"
    and shk: "shape (read h1 k_h) = [Suc 0 * nat (num_heads ?m), 4, Suc 0]"
    unfolding h1(3,4) by (simp_all add: nh)
  from attn_scores_spec [OF sc h1(1,2) shq shk]
  have "read h2 aw = scores_value ?m (1 / 2) unit_input"
    by (simp add: h1(3,4) scores_value_def)
  then have "tget (read h2 aw) [0, 0, 0, 0] = Fin 2"
    using scores_example by simp
  then show ?thesis
    using py_pow_neg_half_4 by (simp add: ph sc)
qed

end
